theory Spec2Isabelle
  imports Complex_Main
begin

section \<open>Strings\<close>

text \<open>
  A Go string is a sequence of bytes, here a \<open>char list\<close>; indices and lengths count
  bytes, as Go's do.  The functions of package \<open>strings\<close> and \<open>regexp\<close> that the
  repository calls are modelled below from their documented behaviour.
\<close>

definition isDigit :: "char \<Rightarrow> bool" where
  "isDigit c = (c \<in> set ''0123456789'')"

text \<open>The class \<open>\s\<close> of Go's regexp syntax: tab, newline, form feed, carriage return, space.\<close>

definition isReSpace :: "char \<Rightarrow> bool" where
  "isReSpace c = (c \<in> set [CHR 0x09, CHR 0x0A, CHR 0x0C, CHR 0x0D, CHR '' ''])"

text \<open>
  The UTF-8 encodings of the code points \<open>unicode.IsSpace\<close> accepts: the six ASCII ones,
  U+0085, U+00A0, U+1680, U+2000 to U+200A, U+2028, U+2029, U+202F, U+205F and U+3000.
\<close>

definition unicodeSpaces :: "string list" where
  "unicodeSpaces =
     [[CHR 0x09], [CHR 0x0A], [CHR 0x0B], [CHR 0x0C], [CHR 0x0D], [CHR 0x20],
      [CHR 0xC2, CHR 0x85], [CHR 0xC2, CHR 0xA0], [CHR 0xE1, CHR 0x9A, CHR 0x80],
      [CHR 0xE2, CHR 0x80, CHR 0x80], [CHR 0xE2, CHR 0x80, CHR 0x81],
      [CHR 0xE2, CHR 0x80, CHR 0x82], [CHR 0xE2, CHR 0x80, CHR 0x83],
      [CHR 0xE2, CHR 0x80, CHR 0x84], [CHR 0xE2, CHR 0x80, CHR 0x85],
      [CHR 0xE2, CHR 0x80, CHR 0x86], [CHR 0xE2, CHR 0x80, CHR 0x87],
      [CHR 0xE2, CHR 0x80, CHR 0x88], [CHR 0xE2, CHR 0x80, CHR 0x89],
      [CHR 0xE2, CHR 0x80, CHR 0x8A], [CHR 0xE2, CHR 0x80, CHR 0xA8],
      [CHR 0xE2, CHR 0x80, CHR 0xA9], [CHR 0xE2, CHR 0x80, CHR 0xAF],
      [CHR 0xE2, CHR 0x81, CHR 0x9F], [CHR 0xE3, CHR 0x80, CHR 0x80]]"

text \<open>The number of bytes of the white-space rune a string starts with (0 when it starts with none).\<close>

definition spacePrefix :: "string \<Rightarrow> nat" where
  "spacePrefix s =
     (case List.find (\<lambda>w. take (length w) s = w) unicodeSpaces of
        None \<Rightarrow> 0
      | Some w \<Rightarrow> length w)"

lemma spacePrefix_le: "spacePrefix s \<le> length s"
proof (cases "List.find (\<lambda>w. take (length w) s = w) unicodeSpaces")
  case None
  then show ?thesis by (simp add: spacePrefix_def)
next
  case (Some w)
  then have "take (length w) s = w"
    by (auto simp: find_Some_iff)
  then have "length w \<le> length s"
    by (metis length_take min.cobounded1)
  with Some show ?thesis by (simp add: spacePrefix_def)
qed

function TrimLeft :: "string \<Rightarrow> string" where
  "TrimLeft s = (if spacePrefix s = 0 then s else TrimLeft (drop (spacePrefix s) s))"
  by pat_completeness auto
termination
proof (relation "measure length")
  show "wf (measure length)" by simp
next
  fix s :: string
  assume "spacePrefix s \<noteq> 0"
  moreover have "spacePrefix s \<le> length s" by (rule spacePrefix_le)
  ultimately show "(drop (spacePrefix s) s, s) \<in> measure length" by simp
qed

declare TrimLeft.simps [simp del]

text \<open>
  Trailing white space is found by decoding the last rune; a suffix is the encoding of a
  white-space rune exactly when the reversed string starts with the reversed encoding.
\<close>

definition spaceSuffix :: "string \<Rightarrow> nat" where
  "spaceSuffix s =
     (case List.find (\<lambda>w. take (length w) (rev s) = rev w) unicodeSpaces of
        None \<Rightarrow> 0
      | Some w \<Rightarrow> length w)"

lemma spaceSuffix_le: "spaceSuffix s \<le> length s"
proof (cases "List.find (\<lambda>w. take (length w) (rev s) = rev w) unicodeSpaces")
  case None
  then show ?thesis by (simp add: spaceSuffix_def)
next
  case (Some w)
  then have "take (length w) (rev s) = rev w"
    by (auto simp: find_Some_iff)
  then have "length (rev w) \<le> length (rev s)"
    by (metis length_take min.cobounded1)
  with Some show ?thesis by (simp add: spaceSuffix_def)
qed

function TrimRight :: "string \<Rightarrow> string" where
  "TrimRight s = (if spaceSuffix s = 0 then s else TrimRight (take (length s - spaceSuffix s) s))"
  by pat_completeness auto
termination
proof (relation "measure length")
  show "wf (measure length)" by simp
next
  fix s :: string
  assume "spaceSuffix s \<noteq> 0"
  moreover have "spaceSuffix s \<le> length s" by (rule spaceSuffix_le)
  ultimately show "(take (length s - spaceSuffix s) s, s) \<in> measure length" by simp
qed

declare TrimRight.simps [simp del]

text \<open>\<open>strings.TrimSpace\<close>: all leading and trailing white space removed.\<close>

definition TrimSpace :: "string \<Rightarrow> string" where
  "TrimSpace s = TrimRight (TrimLeft s)"

text \<open>
  \<open>strings.LastIndex\<close>: the byte index of the last occurrence of \<open>sep\<close> in \<open>s\<close>, or
  \<open>-1\<close> when there is none.
\<close>

definition occursAt :: "string \<Rightarrow> string \<Rightarrow> nat \<Rightarrow> bool" where
  "occursAt sep s i = (take (length sep) (drop i s) = sep)"

definition LastIndex :: "string \<Rightarrow> string \<Rightarrow> int" where
  "LastIndex s sep =
     (case filter (occursAt sep s) (rev [0..<Suc (length s)]) of
        [] \<Rightarrow> -1
      | i # _ \<Rightarrow> int i)"

text \<open>
  \<open>strings.ReplaceAll\<close> for a non-empty \<open>old\<close> (the only way the repository calls it):
  the non-overlapping occurrences of \<open>old\<close>, from the left, replaced by \<open>new\<close>.
\<close>

function ReplaceAll :: "string \<Rightarrow> string \<Rightarrow> string \<Rightarrow> string" where
  "ReplaceAll [] old new = []"
| "ReplaceAll (c # cs) old new =
     (if old \<noteq> [] \<and> take (length old) (c # cs) = old
      then new @ ReplaceAll (drop (length old - 1) cs) old new
      else c # ReplaceAll cs old new)"
  by pat_completeness auto
termination
  by (relation "measure (\<lambda>(s, old, new). length s)") auto

section \<open>Regular expressions\<close>

text \<open>
  The three patterns of the repository use literals, character classes, greedy
  repetition of a class, an optional part, an alternative and one capturing group.
  \<open>regexp.FindStringSubmatch\<close> returns the leftmost match and, at that position, the
  match a backtracking search finds first; \<open>rmatch\<close> is that search, written with a
  continuation for the rest of the pattern.
\<close>

datatype regex =
    Lit string
  | Class "char \<Rightarrow> bool"
  | Seq regex regex
  | Alt regex regex
  | Opt regex
  | Rep "char \<Rightarrow> bool" nat "nat option"
  | Group regex

text \<open>
  \<open>rep p lo hi\<close>: between \<open>lo\<close> and \<open>hi\<close> bytes of class \<open>p\<close> (\<open>hi = None\<close>: no upper
  bound), as many as possible first.
\<close>

fun rep :: "(char \<Rightarrow> bool) \<Rightarrow> nat \<Rightarrow> nat option \<Rightarrow> string \<Rightarrow> (string \<Rightarrow> 'a option) \<Rightarrow> 'a option" where
  "rep p lo hi [] k = (if lo = 0 then k [] else None)"
| "rep p lo hi (c # cs) k =
     (if p c \<and> hi \<noteq> Some 0 then
        (case rep p (lo - 1) (map_option (\<lambda>h. h - 1) hi) cs k of
           Some r \<Rightarrow> Some r
         | None \<Rightarrow> if lo = 0 then k (c # cs) else None)
      else if lo = 0 then k (c # cs) else None)"

fun rmatch :: "regex \<Rightarrow> string \<Rightarrow> string option \<Rightarrow> (string option \<Rightarrow> string \<Rightarrow> 'a option) \<Rightarrow> 'a option" where
  "rmatch (Lit w) s g k = (if take (length w) s = w then k g (drop (length w) s) else None)"
| "rmatch (Class p) s g k = (case s of [] \<Rightarrow> None | c # cs \<Rightarrow> if p c then k g cs else None)"
| "rmatch (Seq a b) s g k = rmatch a s g (\<lambda>g' s'. rmatch b s' g' k)"
| "rmatch (Alt a b) s g k = (case rmatch a s g k of Some r \<Rightarrow> Some r | None \<Rightarrow> rmatch b s g k)"
| "rmatch (Opt a) s g k = (case rmatch a s g k of Some r \<Rightarrow> Some r | None \<Rightarrow> k g s)"
| "rmatch (Rep p lo hi) s g k = rep p lo hi s (k g)"
| "rmatch (Group a) s g k = rmatch a s g (\<lambda>g' s'. k (Some (take (length s - length s') s)) s')"

text \<open>
  The match anchored at the start of \<open>s\<close>: the matched text and the text of the group
  (empty when the group took no part), as the two-element slice Go returns.
\<close>

definition matchHere :: "regex \<Rightarrow> string \<Rightarrow> string list option" where
  "matchHere re s =
     rmatch re s None
       (\<lambda>g rest. Some [take (length s - length rest) s, (case g of None \<Rightarrow> [] | Some t \<Rightarrow> t)])"

text \<open>\<open>FindStringSubmatch\<close>: the empty list stands for Go's \<open>nil\<close> (no match).\<close>

fun FindStringSubmatch :: "regex \<Rightarrow> string \<Rightarrow> string list" where
  "FindStringSubmatch re [] = (case matchHere re [] of Some m \<Rightarrow> m | None \<Rightarrow> [])"
| "FindStringSubmatch re (c # cs) =
     (case matchHere re (c # cs) of Some m \<Rightarrow> m | None \<Rightarrow> FindStringSubmatch re cs)"

section \<open>Numbers\<close>

text \<open>
  A \<open>float64\<close> is modelled by the rational number it stands for: a modelled value \<open>v\<close>
  means that the code holds the \<open>float64\<close> nearest to \<open>v\<close>.  The comparisons the code
  makes (\<open>val > 5\<close>, \<open>nights > 0\<close>) are against integers and come out the same on the
  rounded value.  Rounding itself is outside the model.
\<close>

datatype error =
    ErrSyntax
  | ErrRange
  | External string
  | NavigateFailed error
  | JSExtractionFailed error
  | HomepageLoadFailed error
  | AllAttemptsFailed int "error option"
  | HomepageNavigationFailed error
  | JSSectionExtractionFailed error
  | SectionDiscoveryFailed error
  | NoSectionsFound

definition digitVal :: "char \<Rightarrow> nat" where
  "digitVal c = of_char c - 48"

definition decimal :: "string \<Rightarrow> nat" where
  "decimal ds = foldl (\<lambda>n c. 10 * n + digitVal c) 0 ds"

text \<open>
  The least magnitude that \<open>float64\<close> conversion rounds to infinity: the largest finite
  \<open>float64\<close> plus half a unit in its last place.
\<close>

definition float64Overflow :: rat where
  "float64Overflow = 2 ^ 1024 - 2 ^ 970"

text \<open>
  \<open>strconv.ParseFloat(s, 64)\<close> on the unsigned decimal numerals \<open>digits\<close> and
  \<open>digits.digits\<close>, the only strings the patterns below capture: the value of the
  numeral, or a range error when it is too large for a \<open>float64\<close>.  (Go accepts more
  forms, signs and exponents among them; the model reports a syntax error for every
  other string.)
\<close>

definition ParseFloat :: "string \<Rightarrow> error + rat" where
  "ParseFloat s =
     (let ip = takeWhile isDigit s; rest = dropWhile isDigit s;
          fp = (case rest of [] \<Rightarrow> [] | c # cs \<Rightarrow> cs);
          v = of_nat (decimal ip) + of_nat (decimal fp) / 10 ^ length fp
      in if ip = [] then Inl ErrSyntax
         else if rest \<noteq> [] \<and> (hd rest \<noteq> CHR ''.'' \<or> fp = [] \<or> \<not> list_all isDigit fp)
         then Inl ErrSyntax
         else if float64Overflow \<le> v then Inl ErrRange
         else Inr v)"

section \<open>The data cleaner (services)\<close>

text \<open>\<^verbatim>\<open>priceRegex = \$?([\d,]+(?:\.\d{2})?)\<close>\<close>

definition priceRegex :: regex where
  "priceRegex =
     Seq (Opt (Lit ''$''))
         (Group (Seq (Rep (\<lambda>c. isDigit c \<or> c = CHR '','') 1 None)
                     (Opt (Seq (Lit ''.'') (Rep isDigit 2 (Some 2))))))"

text \<open>\<^verbatim>\<open>ratingRegex = ([45]\.\d{1,2}|\d\.\d{1,2})\<close>\<close>

definition ratingRegex :: regex where
  "ratingRegex =
     Group (Alt (Seq (Class (\<lambda>c. c \<in> set ''45'')) (Seq (Lit ''.'') (Rep isDigit 1 (Some 2))))
                (Seq (Class isDigit) (Seq (Lit ''.'') (Rep isDigit 1 (Some 2)))))"

text \<open>\<^verbatim>\<open>nightsRegex = for\s+(\d+)\s+night\<close>\<close>

definition nightsRegex :: regex where
  "nightsRegex =
     Seq (Lit ''for'')
         (Seq (Rep isReSpace 1 None)
              (Seq (Group (Rep isDigit 1 None))
                   (Seq (Rep isReSpace 1 None) (Lit ''night''))))"

definition parsePrice :: "string \<Rightarrow> rat" where
  "parsePrice raw =
     (if raw = [] then 0
      else
        let cleaned = ReplaceAll raw '','' [];
            matches = FindStringSubmatch priceRegex cleaned
        in if length matches < 2 then 0
           else
             case ParseFloat (matches ! 1) of
               Inl err \<Rightarrow> 0
             | Inr val \<Rightarrow>
                 (let m = FindStringSubmatch nightsRegex cleaned
                  in if 2 \<le> length m then
                       (case ParseFloat (m ! 1) of
                          Inr nights \<Rightarrow> if 0 < nights then val / nights else val
                        | Inl err \<Rightarrow> val)
                     else val))"

definition parseRating :: "string \<Rightarrow> rat" where
  "parseRating raw =
     (if raw = [] then 0
      else
        let matches = FindStringSubmatch ratingRegex raw
        in if length matches < 2 then 0
           else
             case ParseFloat (matches ! 1) of
               Inl err \<Rightarrow> 0
             | Inr val \<Rightarrow> if 5 < val then 0 else val)"

definition cleanLocation :: "string \<Rightarrow> string" where
  "cleanLocation loc0 =
     (let loc = TrimSpace loc0;
          idx = LastIndex loc '' in ''
      in if idx \<noteq> -1 \<and> idx < 30 then drop (nat (idx + 4)) loc else loc)"

section \<open>Retry with backoff (utils)\<close>

text \<open>
  What the code does besides computing values is recorded as a list of events, oldest
  first: the calls of \<open>time.Sleep\<close>, of the rate limiter, and the logger's messages
  that carry information (each constructor is one message, with its arguments).  The
  informational messages that only announce a phase are not recorded.
\<close>

datatype event =
    Sleep int
  | WarnRetrying int int int
  | ErrorAttemptFailed int error
  | RateLimiterWait
  | InfoPage string int int int
  | ErrorPage int error
  | WarnNoListings int
  | WarnEnrichFailed string error
  | WarnFallback
  | InfoSections "string list"
  | ErrorSectionFailed string error
  | InfoSectionDone string int int
  | InfoFound "(string \<times> string) list"

text \<open>
  Go's \<open>int\<close> and \<open>time.Duration\<close> are 64-bit signed integers whose arithmetic wraps
  around; a \<open>Duration\<close> counts nanoseconds.  \<open>Sleep d\<close> records the argument of
  \<open>time.Sleep\<close>, which returns at once when \<open>d\<close> is zero or negative.
\<close>

definition wrap64 :: "int \<Rightarrow> int" where
  "wrap64 x = (x + 2 ^ 63) mod 2 ^ 64 - 2 ^ 63"

definition Second :: int where
  "Second = 1000000000"

text \<open>\<^verbatim>\<open>backoff := time.Duration(attempt*attempt) * time.Second\<close>\<close>

definition backoff :: "int \<Rightarrow> int" where
  "backoff attempt = wrap64 (wrap64 (attempt * attempt) * Second)"

text \<open>
  The operation \<open>fn\<close> is a closure: it returns an error or \<open>nil\<close> (\<open>None\<close>) and
  changes the state \<open>'s\<close> it has captured.  \<open>retryLoop\<close> is the \<open>for\<close> loop of
  \<open>RetryWithBackoff\<close>, from the attempt number \<open>attempt\<close> on; it returns the error, the
  events of the loop and the state the closure left.
\<close>

function retryLoop ::
  "int \<Rightarrow> ('s \<Rightarrow> error option \<times> 's) \<Rightarrow> int \<Rightarrow> error option \<Rightarrow> event list \<Rightarrow> 's
   \<Rightarrow> error option \<times> event list \<times> 's" where
  "retryLoop maxRetries fn attempt lastErr evs s =
     (if attempt < maxRetries then
        (let evs1 = (if 0 < attempt
                     then evs @ [WarnRetrying (attempt + 1) maxRetries (backoff attempt),
                                 Sleep (backoff attempt)]
                     else evs)
         in case fn s of
              (Some err, s') \<Rightarrow>
                retryLoop maxRetries fn (attempt + 1) (Some err)
                  (evs1 @ [ErrorAttemptFailed (attempt + 1) err]) s'
            | (None, s') \<Rightarrow> (None, evs1, s'))
      else (Some (AllAttemptsFailed maxRetries lastErr), evs, s))"
  by pat_completeness auto
termination
  by (relation "measure (\<lambda>(maxRetries, fn, attempt, lastErr, evs, s). nat (maxRetries - attempt))")
    auto

declare retryLoop.simps [simp del]

definition RetryWithBackoff ::
  "int \<Rightarrow> ('s \<Rightarrow> error option \<times> 's) \<Rightarrow> 's \<Rightarrow> error option \<times> event list \<times> 's" where
  "RetryWithBackoff maxRetries fn s = retryLoop maxRetries fn 0 None [] s"

section \<open>The URL tracker (utils)\<close>

text \<open>The set of a \<open>map[string]struct{}\<close> is its domain; the mutex has no part in a sequential model.\<close>

record URLTracker =
  seen :: "string \<rightharpoonup> unit"

definition NewURLTracker :: URLTracker where
  "NewURLTracker = \<lparr>seen = Map.empty\<rparr>"

definition Add :: "URLTracker \<Rightarrow> string \<Rightarrow> bool \<times> URLTracker" where
  "Add t url =
     (case seen t url of
        Some u \<Rightarrow> (False, t)
      | None \<Rightarrow> (True, t\<lparr>seen := (seen t)(url \<mapsto> ())\<rparr>))"

definition Count :: "URLTracker \<Rightarrow> nat" where
  "Count t = card (dom (seen t))"

section \<open>The scraper (scraper/airbnb)\<close>

record Config =
  DatabaseURL :: string
  MaxConcurrency :: int
  RateLimitDelay :: int
  MaxRetries :: int
  PropertiesPerPage :: int
  CSVFilePath :: string
  AirbnbURL :: string

record RawListing =
  Platform :: string
  Title :: string
  RawPrice :: string
  Location :: string
  RawRating :: string
  URL :: string
  Description :: string
  ScrapedAt :: nat

text \<open>The source's \<open>LocationSection\<close> has the fields \<open>Name\<close> and \<open>URL\<close>.\<close>

record LocationSection =
  Name :: string
  SectionURL :: string

text \<open>The cards the extraction script returns for a page of results.\<close>

record card =
  cardTitle :: string
  cardPrice :: string
  cardRating :: string
  cardURL :: string
  cardLocation :: string

text \<open>
  The browser is outside the repository.  What it answers may depend on the URL and on
  when it is asked, so each answer is a function of the number of requests made before
  and of the URL.  A page of results fails to load, fails in the extraction script, or
  gives the cards and the link to the next page (empty when there is none or when the
  script looking for it fails, an error the code ignores).  \<open>EqualFold\<close> is
  \<open>strings.EqualFold\<close>, Unicode case folding, also taken from outside.
\<close>

datatype homeLoad = HomeNavError error | HomeEvalError error | Home "(string \<times> string) list"

datatype pageLoad = NavError error | EvalError error | Cards "card list" string

record env =
  homepage :: "nat \<Rightarrow> string \<Rightarrow> homeLoad"
  resultsPage :: "nat \<Rightarrow> string \<Rightarrow> pageLoad"
  detailPage :: "nat \<Rightarrow> string \<Rightarrow> error + string"
  EqualFold :: "string \<Rightarrow> string \<Rightarrow> bool"

text \<open>
  The scraper's state: its configuration, the map of URLs seen, the number of requests
  made to the browser and the events so far.  Time stamps are request numbers.
\<close>

record AirbnbScraper =
  cfg :: Config
  seenURLs :: "string \<rightharpoonup> bool"
  requests :: nat
  log :: "event list"

definition NewAirbnbScraper :: "Config \<Rightarrow> AirbnbScraper" where
  "NewAirbnbScraper c = \<lparr>cfg = c, seenURLs = Map.empty, requests = 0, log = []\<rparr>"

text \<open>Reading a Go \<open>map[string]bool\<close> at a missing key gives \<open>false\<close>.\<close>

definition isSeen :: "AirbnbScraper \<Rightarrow> string \<Rightarrow> bool" where
  "isSeen s url = (case seenURLs s url of None \<Rightarrow> False | Some b \<Rightarrow> b)"

definition logEvent :: "event \<Rightarrow> AirbnbScraper \<Rightarrow> AirbnbScraper" where
  "logEvent e s = s\<lparr>log := log s @ [e]\<rparr>"

definition Wait :: "AirbnbScraper \<Rightarrow> AirbnbScraper" where
  "Wait s = logEvent RateLimiterWait s"

definition toListing :: "string \<Rightarrow> nat \<Rightarrow> card \<Rightarrow> RawListing" where
  "toListing sectionName now c =
     \<lparr>Platform = ''Airbnb'', Title = cardTitle c, RawPrice = cardPrice c,
      Location = (if cardLocation c = [] then sectionName else cardLocation c),
      RawRating = cardRating c, URL = cardURL c, Description = [], ScrapedAt = now\<rparr>"

text \<open>
  One attempt at a page of results: the closure \<open>scrapePage\<close> hands to
  \<open>RetryWithBackoff\<close>.  It has captured \<open>listings\<close> and \<open>nextURL\<close>.
\<close>

definition pageAttempt ::
  "env \<Rightarrow> string \<Rightarrow> string \<Rightarrow> RawListing list \<times> string \<times> AirbnbScraper
   \<Rightarrow> error option \<times> RawListing list \<times> string \<times> AirbnbScraper" where
  "pageAttempt e pageURL sectionName = (\<lambda>(listings, nextURL, s).
     (let now = requests s; s' = s\<lparr>requests := now + 1\<rparr>
      in case resultsPage e now pageURL of
           NavError err \<Rightarrow> (Some (NavigateFailed err), listings, nextURL, s')
         | EvalError err \<Rightarrow> (Some (JSExtractionFailed err), listings, nextURL, s')
         | Cards cards next \<Rightarrow> (None, map (toListing sectionName now) cards, next, s')))"

definition scrapePage ::
  "env \<Rightarrow> AirbnbScraper \<Rightarrow> string \<Rightarrow> string
   \<Rightarrow> RawListing list \<times> string \<times> error option \<times> AirbnbScraper" where
  "scrapePage e s pageURL sectionName =
     (case RetryWithBackoff (MaxRetries (cfg s)) (pageAttempt e pageURL sectionName) ([], [], s) of
        (err, evs, listings, nextURL, s') \<Rightarrow> (listings, nextURL, err, s'\<lparr>log := log s' @ evs\<rparr>))"

definition enrichDetail :: "env \<Rightarrow> AirbnbScraper \<Rightarrow> RawListing \<Rightarrow> RawListing \<times> AirbnbScraper" where
  "enrichDetail e s listing =
     (if URL listing = [] then (listing, s)
      else
        let now = requests s; s' = s\<lparr>requests := now + 1\<rparr>
        in case detailPage e now (URL listing) of
             Inl err \<Rightarrow> (listing, logEvent (WarnEnrichFailed (Title listing) err) s')
           | Inr desc \<Rightarrow>
               if desc \<noteq> [] \<and> \<not> EqualFold e (TrimSpace desc) (TrimSpace (Title listing))
               then (listing\<lparr>Description := desc\<rparr>, s')
               else (listing, s'))"

text \<open>The loop over the listings of one page, in \<open>scrapeSection\<close>.\<close>

fun collectPage ::
  "env \<Rightarrow> RawListing list \<Rightarrow> RawListing list \<Rightarrow> AirbnbScraper \<Rightarrow> RawListing list \<times> AirbnbScraper" where
  "collectPage e [] collected s = (collected, s)"
| "collectPage e (l # ls) collected s =
     (if PropertiesPerPage (cfg s) \<le> int (length collected) then (collected, s)
      else if isSeen s (URL l) then collectPage e ls collected s
      else
        (let s1 = s\<lparr>seenURLs := (seenURLs s)(URL l \<mapsto> True)\<rparr>
         in case (if Description l = [] \<and> URL l \<noteq> [] then enrichDetail e (Wait s1) l else (l, s1)) of
              (l', s2) \<Rightarrow> collectPage e ls (collected @ [l']) s2))"

text \<open>
  The pagination loop of \<open>scrapeSection\<close> may run for ever (pages of duplicates that
  each link to a next page), so it runs on fuel, one unit for each page fetched.
  \<open>Returned\<close> is the loop's result; \<open>OutOfFuel\<close> carries the state at the head of the
  iteration at which the fuel ran out, a state the real loop passes through.
\<close>

datatype 'a outcome = Returned 'a | OutOfFuel 'a

fun reached :: "'a outcome \<Rightarrow> 'a" where
  "reached (Returned x) = x"
| "reached (OutOfFuel x) = x"

fun sectionLoop ::
  "nat \<Rightarrow> env \<Rightarrow> LocationSection \<Rightarrow> string \<Rightarrow> int \<Rightarrow> RawListing list \<Rightarrow> AirbnbScraper
   \<Rightarrow> (RawListing list \<times> AirbnbScraper) outcome" where
  "sectionLoop 0 e section currentURL page collected s =
     (if int (length collected) < PropertiesPerPage (cfg s)
      then OutOfFuel (collected, s)
      else Returned (collected, s))"
| "sectionLoop (Suc fuel) e section currentURL page collected s =
     (if int (length collected) < PropertiesPerPage (cfg s) then
        (let s0 = logEvent (InfoPage (Name section) page (int (length collected))
                              (PropertiesPerPage (cfg s))) s
         in case scrapePage e s0 currentURL (Name section) of
              (listings, nextURL, Some err, s1) \<Rightarrow> Returned (collected, logEvent (ErrorPage page err) s1)
            | (listings, nextURL, None, s1) \<Rightarrow>
                if listings = [] then Returned (collected, logEvent (WarnNoListings page) s1)
                else
                  (case collectPage e listings collected s1 of
                     (collected', s2) \<Rightarrow>
                       if PropertiesPerPage (cfg s2) \<le> int (length collected') \<or> nextURL = []
                       then Returned (collected', s2)
                       else sectionLoop fuel e section nextURL (page + 1) collected' (Wait s2)))
      else Returned (collected, s))"

text \<open>\<open>scrapeSection\<close> returns the listings and an error, which is always \<open>nil\<close>.\<close>

definition scrapeSection ::
  "nat \<Rightarrow> env \<Rightarrow> AirbnbScraper \<Rightarrow> LocationSection
   \<Rightarrow> (RawListing list \<times> error option \<times> AirbnbScraper) outcome" where
  "scrapeSection fuel e s section =
     (case sectionLoop fuel e section (SectionURL section) 1 [] s of
        Returned (collected, s') \<Rightarrow> Returned (collected, None, s')
      | OutOfFuel (collected, s') \<Rightarrow> OutOfFuel (collected, None, s'))"

definition discoverSections ::
  "env \<Rightarrow> AirbnbScraper \<Rightarrow> LocationSection list \<times> error option \<times> AirbnbScraper" where
  "discoverSections e s =
     (let now = requests s; s' = s\<lparr>requests := now + 1\<rparr>
      in case homepage e now (AirbnbURL (cfg s)) of
           HomeNavError err \<Rightarrow> ([], Some (HomepageLoadFailed err), s')
         | HomeEvalError err \<Rightarrow> ([], Some err, s')
         | Home raw \<Rightarrow>
             (map (\<lambda>(n, u). \<lparr>Name = n, SectionURL = u\<rparr>)
                (filter (\<lambda>(n, u). \<not> (n = [] \<or> u = [])) raw), None, s'))"

definition fallbackSections :: "LocationSection list" where
  "fallbackSections =
     (let base = ''https://www.airbnb.com/s'' in
      [\<lparr>Name = ''Bangkok'', SectionURL = base @ ''/Bangkok--Thailand/homes''\<rparr>,
       \<lparr>Name = ''Kuala Lumpur'', SectionURL = base @ ''/Kuala-Lumpur--Malaysia/homes''\<rparr>,
       \<lparr>Name = ''Tokyo'', SectionURL = base @ ''/Tokyo--Japan/homes''\<rparr>,
       \<lparr>Name = ''Bali'', SectionURL = base @ ''/Bali--Indonesia/homes''\<rparr>,
       \<lparr>Name = ''Seoul'', SectionURL = base @ ''/Seoul--South-Korea/homes''\<rparr>,
       \<lparr>Name = ''Singapore'', SectionURL = base @ ''/Singapore/homes''\<rparr>,
       \<lparr>Name = ''Paris'', SectionURL = base @ ''/Paris--France/homes''\<rparr>,
       \<lparr>Name = ''New York'', SectionURL = base @ ''/New-York--NY--United-States/homes''\<rparr>,
       \<lparr>Name = ''London'', SectionURL = base @ ''/London--United-Kingdom/homes''\<rparr>,
       \<lparr>Name = ''Dubai'', SectionURL = base @ ''/Dubai--United-Arab-Emirates/homes''\<rparr>])"

text \<open>
  The loop over the sections, in \<open>Scrape\<close>.  When a section runs out of fuel the run has
  not got past it: the outcome carries the listings kept so far, those of the unfinished
  section included.
\<close>

fun scrapeSections ::
  "nat \<Rightarrow> env \<Rightarrow> LocationSection list \<Rightarrow> RawListing list \<Rightarrow> AirbnbScraper
   \<Rightarrow> (RawListing list \<times> error option \<times> AirbnbScraper) outcome" where
  "scrapeSections fuel e [] allListings s = Returned (allListings, None, s)"
| "scrapeSections fuel e (section # rest) allListings s =
     (case scrapeSection fuel e (Wait s) section of
        OutOfFuel (listings, err, s') \<Rightarrow> OutOfFuel (allListings @ listings, None, s')
      | Returned (listings, Some err, s') \<Rightarrow>
          scrapeSections fuel e rest allListings (logEvent (ErrorSectionFailed (Name section) err) s')
      | Returned (listings, None, s') \<Rightarrow>
          scrapeSections fuel e rest (allListings @ listings)
            (logEvent (InfoSectionDone (Name section) (int (length listings))
                         (int (length (allListings @ listings)))) s'))"

definition Scrape ::
  "nat \<Rightarrow> env \<Rightarrow> AirbnbScraper \<Rightarrow> (RawListing list \<times> error option \<times> AirbnbScraper) outcome" where
  "Scrape fuel e s =
     (case discoverSections e s of
        (sections, err, s1) \<Rightarrow>
          (let (sections', s2) =
                 (if err \<noteq> None \<or> sections = []
                  then (fallbackSections, logEvent WarnFallback s1)
                  else (sections, s1))
           in scrapeSections fuel e sections' [] (logEvent (InfoSections (map Name sections')) s2)))"

text \<open>
  \<open>scraper.go\<close> holds the scraper twice.  But for the wording of some messages and
  the scripts run in the browser, the two copies agree on \<open>scrapeSection\<close>,
  \<open>scrapePage\<close>, \<open>enrichDetail\<close> and the loop over the sections; they differ in the
  discovery of the sections and in what \<open>Scrape\<close> does with its result.  The definitions above follow the second copy, which
  has the static list \<open>fallbackSections\<close>.  \<open>discoverSections_v1\<close> and \<open>Scrape_v1\<close>
  follow the first copy (lines 66 to 184), which has no such list: there \<open>Scrape\<close>
  returns an error when discovery fails and when it finds no section.  \<open>InfoFound\<close>
  records its messages "Found n location sections" and "[i] name -> url".
\<close>

definition discoverSections_v1 ::
  "env \<Rightarrow> AirbnbScraper \<Rightarrow> LocationSection list \<times> error option \<times> AirbnbScraper" where
  "discoverSections_v1 e s =
     (let now = requests s; s' = s\<lparr>requests := now + 1\<rparr>
      in case homepage e now (AirbnbURL (cfg s)) of
           HomeNavError err \<Rightarrow> ([], Some (HomepageNavigationFailed err), s')
         | HomeEvalError err \<Rightarrow> ([], Some (JSSectionExtractionFailed err), s')
         | Home raw \<Rightarrow>
             (map (\<lambda>(n, u). \<lparr>Name = n, SectionURL = u\<rparr>)
                (filter (\<lambda>(n, u). \<not> (n = [] \<or> u = [])) raw), None, s'))"

definition Scrape_v1 ::
  "nat \<Rightarrow> env \<Rightarrow> AirbnbScraper \<Rightarrow> (RawListing list \<times> error option \<times> AirbnbScraper) outcome" where
  "Scrape_v1 fuel e s =
     (case discoverSections_v1 e s of
        (sections, Some err, s1) \<Rightarrow> Returned ([], Some (SectionDiscoveryFailed err), s1)
      | (sections, None, s1) \<Rightarrow>
          if sections = [] then Returned ([], Some NoSectionsFound, s1)
          else scrapeSections fuel e sections []
                 (logEvent (InfoFound (map (\<lambda>sec. (Name sec, SectionURL sec)) sections)) s1))"

section \<open>Notions of the specification\<close>

subsection \<open>Ratings, prices and locations\<close>

text \<open>
  The rating pattern matches a digit, a dot and one or two digits.  \<open>ratingTokenHere\<close>
  is that token at the start of a string, \<open>firstRatingToken\<close> the leftmost one, and
  \<open>spec_firstFloat\<close> its value: the specification's "first float matching the pattern".
\<close>

fun ratingTokenHere :: "string \<Rightarrow> string option" where
  "ratingTokenHere (a # b # c # rest) =
     (if isDigit a \<and> b = CHR ''.'' \<and> isDigit c
      then Some (a # b # c # (case rest of [] \<Rightarrow> [] | d # _ \<Rightarrow> if isDigit d then [d] else []))
      else None)"
| "ratingTokenHere _ = None"

fun firstRatingToken :: "string \<Rightarrow> string option" where
  "firstRatingToken [] = None"
| "firstRatingToken (c # cs) =
     (case ratingTokenHere (c # cs) of Some t \<Rightarrow> Some t | None \<Rightarrow> firstRatingToken cs)"

fun spec_firstFloat :: "string \<Rightarrow> rat option" where
  "spec_firstFloat (a # b # c # rest) =
     (if isDigit a \<and> b = CHR ''.'' \<and> isDigit c
      then Some (of_nat (digitVal a) + of_nat (digitVal c) / 10 +
                 (case rest of [] \<Rightarrow> 0 | d # _ \<Rightarrow> if isDigit d then of_nat (digitVal d) / 100 else 0))
      else spec_firstFloat (b # c # rest))"
| "spec_firstFloat _ = None"

text \<open>
  The shapes of text the claim about prices speaks of: a price \<open>$XF\<close>, where \<open>X\<close> is
  written with digits and thousands separators and \<open>F\<close> is empty or a dot and two
  digits, and a number of nights \<open>N\<close> written with digits.  \<open>spec_amountValue X\<close> and
  \<open>spec_fractionValue F\<close> are the numbers \<open>X\<close> and \<open>F\<close> denote.
\<close>

definition spec_numeral :: "string \<Rightarrow> bool" where
  "spec_numeral ds = (ds \<noteq> [] \<and> list_all isDigit ds)"

definition spec_amount :: "string \<Rightarrow> bool" where
  "spec_amount X = (list_all (\<lambda>c. isDigit c \<or> c = CHR '','') X \<and> filter isDigit X \<noteq> [])"

definition spec_amountValue :: "string \<Rightarrow> nat" where
  "spec_amountValue X = decimal (filter isDigit X)"

definition spec_fraction :: "string \<Rightarrow> bool" where
  "spec_fraction F = (F = [] \<or> (length F = 3 \<and> hd F = CHR ''.'' \<and> list_all isDigit (tl F)))"

definition spec_fractionValue :: "string \<Rightarrow> rat" where
  "spec_fractionValue F = of_nat (decimal (drop 1 F)) / 100"

text \<open>
  The specification's "last occurrence": \<open>sep\<close> occurs in \<open>s\<close> at byte index \<open>i\<close> and at
  no later index.
\<close>

definition spec_lastOccurrence :: "string \<Rightarrow> string \<Rightarrow> nat \<Rightarrow> bool" where
  "spec_lastOccurrence sep s i = (occursAt sep s i \<and> (\<forall>j. i < j \<longrightarrow> \<not> occursAt sep s j))"

subsection \<open>Attempts and pauses\<close>

text \<open>
  \<open>stateAfter fn s k\<close> is the state after \<open>k\<close> calls of the operation from \<open>s\<close>, and
  \<open>attemptResult fn s k\<close> what its call number \<open>k\<close> (from 0) returns.
  \<open>beforeAttempt d n k\<close> are the events before attempt \<open>k\<close> of \<open>n\<close> when the pause
  before attempt \<open>k\<close> is \<open>d k\<close>: nothing before attempt 0, the warning and the sleep
  before the others.  \<open>failedEvents d n errs a c\<close> are the events of \<open>c\<close> failed attempts
  from attempt \<open>a\<close> on, attempt \<open>k\<close> failing with \<open>errs k\<close>.
\<close>

fun stateAfter :: "('s \<Rightarrow> error option \<times> 's) \<Rightarrow> 's \<Rightarrow> nat \<Rightarrow> 's" where
  "stateAfter fn s 0 = s"
| "stateAfter fn s (Suc k) = snd (fn (stateAfter fn s k))"

definition attemptResult :: "('s \<Rightarrow> error option \<times> 's) \<Rightarrow> 's \<Rightarrow> nat \<Rightarrow> error option" where
  "attemptResult fn s k = fst (fn (stateAfter fn s k))"

definition beforeAttempt :: "(int \<Rightarrow> int) \<Rightarrow> int \<Rightarrow> nat \<Rightarrow> event list" where
  "beforeAttempt d n k =
     (if k = 0 then [] else [WarnRetrying (int k + 1) n (d (int k)), Sleep (d (int k))])"

fun failedEvents :: "(int \<Rightarrow> int) \<Rightarrow> int \<Rightarrow> (nat \<Rightarrow> error) \<Rightarrow> nat \<Rightarrow> nat \<Rightarrow> event list" where
  "failedEvents d n errs a 0 = []"
| "failedEvents d n errs a (Suc c) =
     beforeAttempt d n a @ [ErrorAttemptFailed (int a + 1) (errs a)] @ failedEvents d n errs (Suc a) c"

text \<open>
  The pause the specification gives for attempt \<open>k\<close>, in nanoseconds, and the pauses
  and the numbers of the failed attempts that a list of events records, in order.
\<close>

definition squareSeconds :: "int \<Rightarrow> int" where
  "squareSeconds k = k * k * Second"

fun sleepsOf :: "event list \<Rightarrow> int list" where
  "sleepsOf [] = []"
| "sleepsOf (Sleep d # es) = d # sleepsOf es"
| "sleepsOf (e # es) = sleepsOf es"

fun attemptsOf :: "event list \<Rightarrow> int list" where
  "attemptsOf [] = []"
| "attemptsOf (ErrorAttemptFailed k err # es) = k # attemptsOf es"
| "attemptsOf (e # es) = attemptsOf es"

subsection \<open>Listings kept and calls of the tracker\<close>

text \<open>
  \<open>kept s new s'\<close>: from state \<open>s\<close> to state \<open>s'\<close> the crawl has kept the listings
  \<open>new\<close>; their URLs differ from each other, none was seen in \<open>s\<close>, and the URLs seen in
  \<open>s'\<close> are those seen in \<open>s\<close> and those of \<open>new\<close>.
\<close>

definition kept :: "AirbnbScraper \<Rightarrow> RawListing list \<Rightarrow> AirbnbScraper \<Rightarrow> bool" where
  "kept s new s' =
     (cfg s' = cfg s \<and> distinct (map URL new) \<and> (\<forall>l\<in>set new. \<not> isSeen s (URL l))
      \<and> (\<forall>u. isSeen s' u = (isSeen s u \<or> u \<in> URL ` set new)))"

text \<open>A sequence of calls of \<open>Add\<close>, with the results in order.\<close>

fun addAll :: "URLTracker \<Rightarrow> string list \<Rightarrow> bool list \<times> URLTracker" where
  "addAll t [] = ([], t)"
| "addAll t (k # ks) =
     (case Add t k of (b, t1) \<Rightarrow> (case addAll t1 ks of (bs, t2) \<Rightarrow> (b # bs, t2)))"

section \<open>Sample environments\<close>

text \<open>
  Case folding of the ASCII letters, with which \<open>strings.EqualFold\<close> agrees on ASCII
  strings; the sample runs below use it.
\<close>

definition asciiLower :: "char \<Rightarrow> char" where
  "asciiLower c =
     (case map_of (zip ''ABCDEFGHIJKLMNOPQRSTUVWXYZ'' ''abcdefghijklmnopqrstuvwxyz'') c of
        None \<Rightarrow> c
      | Some l \<Rightarrow> l)"

definition asciiEqualFold :: "string \<Rightarrow> string \<Rightarrow> bool" where
  "asciiEqualFold a b = (map asciiLower a = map asciiLower b)"

definition demoConfig :: "int \<Rightarrow> int \<Rightarrow> Config" where
  "demoConfig retries quota =
     \<lparr>DatabaseURL = [], MaxConcurrency = 3, RateLimitDelay = 2000, MaxRetries = retries,
      PropertiesPerPage = quota, CSVFilePath = ''output/raw_listings.csv'',
      AirbnbURL = ''https://www.airbnb.com''\<rparr>"

definition demoCard :: "string \<Rightarrow> string \<Rightarrow> card" where
  "demoCard t u =
     \<lparr>cardTitle = t, cardPrice = ''$50'', cardRating = ''4.82'', cardURL = u, cardLocation = []\<rparr>"

text \<open>
  Two sections of one page each, with two cards each; the first card of both pages is
  the same listing, whose detail page echoes its title.
\<close>

definition demoEnv :: env where
  "demoEnv = \<lparr>
     homepage = (\<lambda>n u. Home [(''Bangkok'', ''/s/bkk''), (''Tokyo'', ''/s/tyo'')]),
     resultsPage = (\<lambda>n u.
        if u = ''/s/bkk''
        then Cards [demoCard ''Loft'' ''/rooms/1'', demoCard ''Flat'' ''/rooms/2''] []
        else if u = ''/s/tyo''
        then Cards [demoCard ''Loft'' ''/rooms/1'', demoCard ''Ryokan'' ''/rooms/3''] []
        else NavError (External ''not found'')),
     detailPage = (\<lambda>n u. if u = ''/rooms/1'' then Inr '' LOFT '' else Inr ''Quiet''),
     EqualFold = asciiEqualFold\<rparr>"

text \<open>One section whose page has two cards without a link and one with.\<close>

definition noLinkEnv :: env where
  "noLinkEnv = \<lparr>
     homepage = (\<lambda>n u. Home [(''Bali'', ''/s/bali'')]),
     resultsPage = (\<lambda>n u. Cards [demoCard ''Villa'' [], demoCard ''Hut'' [], demoCard ''Loft'' ''/rooms/1''] []),
     detailPage = (\<lambda>n u. Inl (External ''timeout'')),
     EqualFold = asciiEqualFold\<rparr>"

text \<open>No network: every page fails to load.\<close>

definition downEnv :: env where
  "downEnv = \<lparr>
     homepage = (\<lambda>n u. HomeNavError (External ''net::ERR_INTERNET_DISCONNECTED'')),
     resultsPage = (\<lambda>n u. NavError (External ''net::ERR_INTERNET_DISCONNECTED'')),
     detailPage = (\<lambda>n u. Inl (External ''net::ERR_INTERNET_DISCONNECTED'')),
     EqualFold = asciiEqualFold\<rparr>"

text \<open>A listing, for the sample states.\<close>

definition demoListing :: RawListing where
  "demoListing = \<lparr>Platform = ''Airbnb'', Title = ''Loft'', RawPrice = ''$50'',
       Location = ''Bangkok'', RawRating = ''4.82'', URL = ''/rooms/1'',
       Description = [], ScrapedAt = 1\<rparr>"

text \<open>An entry page that loads and yields no section; every other page fails to load.\<close>

definition emptyHomeEnv :: env where
  "emptyHomeEnv = downEnv\<lparr>homepage := (\<lambda>n u. Home [])\<rparr>"

section \<open>Properties of the data cleaner\<close>

subsection \<open>The rating pattern\<close>

lemma digit45: "c = CHR ''4'' \<or> c = CHR ''5'' \<Longrightarrow> isDigit c"
  by (auto simp: isDigit_def)

lemma rep_hi0 [simp]: "rep p lo (Some 0) s k = (if lo = 0 then k s else None)"
  by (cases s) auto

lemma matchHere_rating:
  "matchHere ratingRegex s = map_option (\<lambda>t. [t, t]) (ratingTokenHere s)"
proof (cases s rule: ratingTokenHere.cases)
  case (1 a b c rest)
  then show ?thesis
    by (cases rest) (auto simp: matchHere_def ratingRegex_def digit45)
qed (auto simp: matchHere_def ratingRegex_def)

lemma Find_rating:
  "FindStringSubmatch ratingRegex s = (case firstRatingToken s of None \<Rightarrow> [] | Some t \<Rightarrow> [t, t])"
  by (induction s) (auto simp: matchHere_rating split: option.splits)

lemma digitVal_le: "isDigit c \<Longrightarrow> digitVal c \<le> 9"
  by (auto simp: isDigit_def digitVal_def)

lemma notdigit_dot [simp]: "\<not> isDigit CHR ''.''"
  by (simp add: isDigit_def)

lemma float64Overflow_big: "2 ^ 63 \<le> float64Overflow"
  by (simp add: float64Overflow_def)

lemma small_in_range: "v < 2 ^ 63 \<Longrightarrow> \<not> float64Overflow \<le> v"
  using float64Overflow_big by (meson leD order_less_le_trans)

lemma digitVal_rat_le: "isDigit c \<Longrightarrow> (of_nat (digitVal c) :: rat) \<le> 9"
  using digitVal_le [of c] by (metis of_nat_le_iff of_nat_numeral)

lemma ParseFloat_d_d:
  assumes "isDigit a" "isDigit c"
  shows "ParseFloat [a, CHR ''.'', c] = Inr (of_nat (digitVal a) + of_nat (digitVal c) / 10)"
proof -
  have "(11::rat) < 2 ^ 63" by simp
  then have "(of_nat (digitVal a) + of_nat (digitVal c) / 10 :: rat) < 2 ^ 63"
    using digitVal_rat_le [OF assms(1)] digitVal_rat_le [OF assms(2)] by linarith
  then show ?thesis
    using assms by (simp add: ParseFloat_def decimal_def small_in_range)
qed

lemma ParseFloat_d_dd:
  assumes "isDigit a" "isDigit c" "isDigit d"
  shows "ParseFloat [a, CHR ''.'', c, d] =
         Inr (of_nat (digitVal a) + of_nat (digitVal c) / 10 + of_nat (digitVal d) / 100)"
proof -
  have "(11::rat) < 2 ^ 63" by simp
  moreover have "(10 * of_nat (digitVal c) + of_nat (digitVal d)) / 100 \<le> (1::rat)"
    using digitVal_rat_le [OF assms(2)] digitVal_rat_le [OF assms(3)] by simp
  ultimately have "(of_nat (digitVal a) + (10 * of_nat (digitVal c) + of_nat (digitVal d)) / 100 :: rat) < 2 ^ 63"
    using digitVal_rat_le [OF assms(1)] by linarith
  then show ?thesis
    using assms by (simp add: ParseFloat_def decimal_def small_in_range add_divide_distrib)
qed

lemma token_value:
  "ratingTokenHere s = Some t \<Longrightarrow> \<exists>v. ParseFloat t = Inr v \<and> spec_firstFloat s = Some v"
proof (cases s rule: ratingTokenHere.cases)
  case (1 a b c rest)
  assume "ratingTokenHere s = Some t"
  with 1 show ?thesis
    by (cases rest) (auto simp: ParseFloat_d_d ParseFloat_d_dd split: if_splits)
qed auto

lemma no_token_here:
  "ratingTokenHere (c # cs) = None \<Longrightarrow> spec_firstFloat (c # cs) = spec_firstFloat cs"
  by (cases "c # cs" rule: ratingTokenHere.cases) (auto split: if_splits)

lemma first_token_value:
  "case firstRatingToken s of
     None \<Rightarrow> spec_firstFloat s = None
   | Some t \<Rightarrow> (\<exists>v. ParseFloat t = Inr v \<and> spec_firstFloat s = Some v)"
proof (induction s)
  case Nil
  show ?case by simp
next
  case (Cons c cs)
  show ?case
  proof (cases "ratingTokenHere (c # cs)")
    case None
    with Cons show ?thesis by (auto simp: no_token_here split: option.splits)
  next
    case (Some t)
    with token_value [OF Some] show ?thesis by simp
  qed
qed

lemma parseRating_spec:
  "parseRating raw = (case spec_firstFloat raw of None \<Rightarrow> 0 | Some v \<Rightarrow> if v \<le> 5 then v else 0)"
proof (cases "firstRatingToken raw")
  case None
  with first_token_value [of raw] have "spec_firstFloat raw = None" by simp
  with None show ?thesis by (simp add: parseRating_def Find_rating)
next
  case (Some t)
  with first_token_value [of raw] obtain v where v: "ParseFloat t = Inr v" "spec_firstFloat raw = Some v"
    by auto
  have "raw \<noteq> []" using Some by auto
  with Some v show ?thesis by (auto simp: parseRating_def Find_rating)
qed

lemma spec_firstFloat_nonneg: "spec_firstFloat s = Some v \<Longrightarrow> 0 \<le> v"
  by (induction s arbitrary: v rule: spec_firstFloat.induct) (auto split: if_splits list.splits)

lemma firstFloat_example_482:
  "spec_firstFloat ''4.82 out of 5 average rating'' = Some 4.82"
  by (simp add: isDigit_def digitVal_def)

lemma firstFloat_example_600: "spec_firstFloat ''6.00'' = Some 6"
  by (simp add: isDigit_def digitVal_def)

text \<open>
  Claim C4.  \<open>parseRating\<close> returns the value of the first token of the raw text that
  matches the rating pattern when that value is at most 5, and 0 otherwise: a value above
  5 is discarded, not clamped, and a text without such a token gives 0.  So the result
  lies between 0 and 5, and \<open>parseRating "4.82 out of 5 average rating" = 4.82\<close>,
  \<open>parseRating "6.00" = 0\<close>, \<open>parseRating "" = 0\<close>.
\<close>

theorem C4_parseRating:
  "parseRating raw =
     (case spec_firstFloat raw of None \<Rightarrow> 0 | Some v \<Rightarrow> if v \<le> 5 then v else 0)
   \<and> 0 \<le> parseRating raw \<and> parseRating raw \<le> 5
   \<and> parseRating ''4.82 out of 5 average rating'' = 4.82
   \<and> parseRating ''6.00'' = 0
   \<and> parseRating [] = 0"
proof -
  have "parseRating ''4.82 out of 5 average rating'' = 4.82"
    unfolding parseRating_spec firstFloat_example_482 by simp
  moreover have "parseRating ''6.00'' = 0"
    unfolding parseRating_spec firstFloat_example_600 by simp
  moreover have "parseRating [] = 0"
    by (simp add: parseRating_def)
  moreover have "0 \<le> parseRating raw \<and> parseRating raw \<le> 5"
    using spec_firstFloat_nonneg [of raw]
    by (auto simp: parseRating_spec split: option.splits)
  ultimately show ?thesis
    using parseRating_spec [of raw] by simp
qed

subsection \<open>The price pattern\<close>

lemma rep_all:
  assumes "list_all p xs" and "case rest of [] \<Rightarrow> True | c # _ \<Rightarrow> \<not> p c"
    and "lo \<le> length xs" and "k rest \<noteq> None"
  shows "rep p lo None (xs @ rest) k = k rest"
  using assms
proof (induction xs arbitrary: lo)
  case Nil
  then show ?case by (cases rest) auto
next
  case (Cons x xs)
  then have "rep p (lo - 1) None (xs @ rest) k = k rest" by auto
  with Cons.prems show ?case by auto
qed

lemma rep_all_nil:
  "list_all p xs \<Longrightarrow> lo \<le> length xs \<Longrightarrow> k [] \<noteq> None \<Longrightarrow> rep p lo None xs k = k []"
  using rep_all [of p xs "[]" lo k] by simp

lemma rep_none:
  "0 < lo \<Longrightarrow> (case s of [] \<Rightarrow> True | c # _ \<Rightarrow> \<not> p c) \<Longrightarrow> rep p lo hi s k = None"
  by (cases s) auto

lemma ReplaceAll_comma: "ReplaceAll s '','' [] = filter (\<lambda>c. c \<noteq> CHR '','') s"
  by (induction s) auto

lemma ParseFloat_digits:
  assumes "list_all isDigit ds" "ds \<noteq> []"
  shows "ParseFloat ds =
    (if float64Overflow \<le> of_nat (decimal ds) then Inl ErrRange else Inr (of_nat (decimal ds)))"
proof -
  have tw: "takeWhile isDigit ds = ds"
    using assms(1) by (simp add: list_all_iff)
  have dw: "dropWhile isDigit ds = []"
    using assms(1) by (simp add: list_all_iff)
  show ?thesis
    unfolding ParseFloat_def Let_def tw dw using assms(2) by (simp add: decimal_def)
qed

lemma matchHere_price:
  assumes "list_all isDigit ds" "ds \<noteq> []"
    and "case rest of [] \<Rightarrow> True | c # _ \<Rightarrow> \<not> isDigit c \<and> c \<noteq> CHR '','' \<and> c \<noteq> CHR ''.''"
  shows "matchHere priceRegex (''$'' @ ds @ rest) = Some [''$'' @ ds, ds]"
proof -
  let ?p = "\<lambda>c. isDigit c \<or> c = CHR '',''"
  have A: "list_all ?p ds" using assms(1) by (simp add: list_all_iff)
  have B: "case rest of [] \<Rightarrow> True | c # _ \<Rightarrow> \<not> ?p c"
    using assms(3) by (cases rest) auto
  have C: "Suc 0 \<le> length ds" using assms(2) by (cases ds) auto
  show ?thesis
    using A B C assms(3) by (cases rest) (simp_all add: matchHere_def priceRegex_def rep_all rep_all_nil)
qed

lemma matchHere_nights_other:
  "c \<noteq> CHR ''f'' \<Longrightarrow> matchHere nightsRegex (c # cs) = None"
  by (simp add: matchHere_def nightsRegex_def)

lemma matchHere_price_nodigit:
  "\<not> isDigit c \<Longrightarrow> c \<noteq> CHR '','' \<Longrightarrow> (case cs of [] \<Rightarrow> True | d # _ \<Rightarrow> \<not> isDigit d \<and> d \<noteq> CHR '','')
   \<Longrightarrow> matchHere priceRegex (c # cs) = None"
  by (cases cs) (auto simp: matchHere_def priceRegex_def)

lemma Find_nights_skip:
  "CHR ''f'' \<notin> set pre \<Longrightarrow>
   FindStringSubmatch nightsRegex (pre @ s) = FindStringSubmatch nightsRegex s"
  by (induction pre) (auto simp: matchHere_nights_other)

lemma Find_nights_none:
  "CHR ''f'' \<notin> set s \<Longrightarrow> FindStringSubmatch nightsRegex s = []"
  by (induction s) (auto simp: matchHere_nights_other matchHere_def nightsRegex_def)

lemma Find_price_none:
  "\<forall>c\<in>set s. \<not> isDigit c \<and> c \<noteq> CHR '','' \<Longrightarrow> FindStringSubmatch priceRegex s = []"
proof (induction s)
  case Nil
  show ?case by (simp add: matchHere_def priceRegex_def)
next
  case (Cons c cs)
  then have "matchHere priceRegex (c # cs) = None"
    by (intro matchHere_price_nodigit) (auto split: list.splits)
  with Cons show ?case by simp
qed

lemma digit_not_f: "isDigit c \<Longrightarrow> c \<noteq> CHR ''f'' \<and> \<not> isReSpace c \<and> c \<noteq> CHR '',''"
  by (auto simp: isDigit_def isReSpace_def)

lemma rep_stop_append:
  "xs \<noteq> [] \<Longrightarrow> \<not> p (hd xs) \<Longrightarrow> rep p 0 hi (xs @ rest) k = k (xs @ rest)"
  by (cases xs) auto

lemma matchHere_nights:
  assumes "list_all isDigit ns" "ns \<noteq> []"
  shows "matchHere nightsRegex (''for '' @ ns @ '' nights'') = Some [''for '' @ ns @ '' night'', ns]"
proof -
  have sp: "\<not> isReSpace (hd ns)" "\<not> isDigit CHR '' ''" "isReSpace CHR '' ''" "\<not> isReSpace CHR ''n''"
    using assms digit_not_f [of "hd ns"] by (cases ns; simp add: isDigit_def isReSpace_def)+
  have C: "Suc 0 \<le> length ns" using assms(2) by (cases ns) auto
  show ?thesis
    using assms sp C
    by (simp add: matchHere_def nightsRegex_def rep_stop_append rep_all)
qed

lemma amount_cleaned:
  "list_all (\<lambda>c. isDigit c \<or> c = CHR '','') X \<Longrightarrow> filter (\<lambda>c. c \<noteq> CHR '','') X = filter isDigit X"
  by (induction X) (auto dest: digit_not_f)

lemma numeral_cleaned:
  "list_all isDigit N \<Longrightarrow> filter (\<lambda>c. c \<noteq> CHR '','') N = N"
  by (induction N) (auto dest: digit_not_f)

lemma Find_price_dollar:
  assumes "list_all isDigit ds" "ds \<noteq> []"
    and "case rest of [] \<Rightarrow> True | c # _ \<Rightarrow> \<not> isDigit c \<and> c \<noteq> CHR '','' \<and> c \<noteq> CHR ''.''"
  shows "FindStringSubmatch priceRegex (''$'' @ ds @ rest) = [''$'' @ ds, ds]"
  using matchHere_price [OF assms] by simp

lemma Find_nights_for:
  assumes "list_all isDigit ds" "list_all isDigit ns" "ns \<noteq> []"
  shows "FindStringSubmatch nightsRegex (''$'' @ ds @ '' for '' @ ns @ '' nights'')
         = [''for '' @ ns @ '' night'', ns]"
proof -
  have "CHR ''f'' \<notin> set (''$'' @ ds @ '' '')"
    using assms(1) digit_not_f by (auto simp: list_all_iff)
  then have "FindStringSubmatch nightsRegex ((''$'' @ ds @ '' '') @ (''for '' @ ns @ '' nights''))
      = FindStringSubmatch nightsRegex (''for '' @ ns @ '' nights'')"
    by (rule Find_nights_skip)
  then show ?thesis
    using matchHere_nights [OF assms(2,3)] by simp
qed

lemma parsePrice_for_nights:
  assumes "spec_amount X" "spec_numeral N" "0 < decimal N"
    and "of_nat (spec_amountValue X) < float64Overflow" "of_nat (decimal N) < float64Overflow"
  shows "parsePrice (''$'' @ X @ '' for '' @ N @ '' nights'')
         = of_nat (spec_amountValue X) / of_nat (decimal N)"
proof -
  let ?ds = "filter isDigit X"
  have ds: "list_all isDigit ?ds" "?ds \<noteq> []"
    using assms(1) by (simp_all add: spec_amount_def list_all_iff)
  have ns: "list_all isDigit N" "N \<noteq> []"
    using assms(2) by (simp_all add: spec_numeral_def)
  have cleaned: "ReplaceAll (''$'' @ X @ '' for '' @ N @ '' nights'') '','' []
        = ''$'' @ ?ds @ '' for '' @ N @ '' nights''"
    using assms(1) ns(1) by (simp add: ReplaceAll_comma amount_cleaned numeral_cleaned spec_amount_def)
  have price: "FindStringSubmatch priceRegex (''$'' @ ?ds @ '' for '' @ N @ '' nights'') = [''$'' @ ?ds, ?ds]"
    by (rule Find_price_dollar [OF ds]) (simp add: isDigit_def)
  have nights: "FindStringSubmatch nightsRegex (''$'' @ ?ds @ '' for '' @ N @ '' nights'')
        = [''for '' @ N @ '' night'', N]"
    by (rule Find_nights_for [OF ds(1) ns])
  have pf: "ParseFloat ?ds = Inr (of_nat (spec_amountValue X))"
    "ParseFloat N = Inr (of_nat (decimal N))"
    using assms(4,5) by (simp_all add: ParseFloat_digits [OF ds] ParseFloat_digits [OF ns] spec_amountValue_def)
  show ?thesis
    unfolding parsePrice_def cleaned Let_def price nights
    using assms(3) pf by simp
qed

lemma parsePrice_bare:
  assumes "spec_amount X" "of_nat (spec_amountValue X) < float64Overflow"
  shows "parsePrice (''$'' @ X) = of_nat (spec_amountValue X)"
proof -
  let ?ds = "filter isDigit X"
  have ds: "list_all isDigit ?ds" "?ds \<noteq> []"
    using assms(1) by (simp_all add: spec_amount_def list_all_iff)
  have cleaned: "ReplaceAll (''$'' @ X) '','' [] = ''$'' @ ?ds @ []"
    using assms(1) by (simp add: ReplaceAll_comma amount_cleaned spec_amount_def)
  have price: "FindStringSubmatch priceRegex (''$'' @ ?ds @ []) = [''$'' @ ?ds, ?ds]"
    by (rule Find_price_dollar [OF ds]) simp
  have "CHR ''f'' \<notin> set (''$'' @ ?ds @ [])"
    using digit_not_f by auto
  then have nights: "FindStringSubmatch nightsRegex (''$'' @ ?ds @ []) = []"
    by (rule Find_nights_none)
  have pf: "ParseFloat ?ds = Inr (of_nat (spec_amountValue X))"
    using assms(2) by (simp add: ParseFloat_digits [OF ds] spec_amountValue_def)
  show ?thesis
    unfolding parsePrice_def cleaned Let_def price nights
    using pf by simp
qed

lemma parsePrice_nodigit:
  assumes "\<forall>c\<in>set raw. \<not> isDigit c"
  shows "parsePrice raw = 0"
proof -
  have "\<forall>c\<in>set (filter (\<lambda>c. c \<noteq> CHR '','') raw). \<not> isDigit c \<and> c \<noteq> CHR '',''"
    using assms by auto
  then have "FindStringSubmatch priceRegex (ReplaceAll raw '','' []) = []"
    unfolding ReplaceAll_comma by (rule Find_price_none)
  then show ?thesis by (simp add: parsePrice_def)
qed

lemma matchHere_price_fraction:
  assumes "list_all isDigit ds" "ds \<noteq> []" "isDigit a" "isDigit b"
  shows "matchHere priceRegex (''$'' @ ds @ CHR ''.'' # a # b # rest)
         = Some [''$'' @ ds @ [CHR ''.'', a, b], ds @ [CHR ''.'', a, b]]"
proof -
  let ?p = "\<lambda>c. isDigit c \<or> c = CHR '',''"
  have A: "list_all ?p ds" using assms(1) by (simp add: list_all_iff)
  have B: "\<not> ?p CHR ''.''" by (simp add: isDigit_def)
  have C: "Suc 0 \<le> length ds" using assms(2) by (cases ds) auto
  have T: "take (4 + length ds) (CHR ''$'' # ds @ CHR ''.'' # a # b # rest) = CHR ''$'' # ds @ [CHR ''.'', a, b]"
    by (induction ds) (simp_all add: numeral_eq_Suc)
  show ?thesis
    using A B C assms(3,4) T
    by (simp add: matchHere_def priceRegex_def rep_all)
qed

lemma ParseFloat_fraction:
  assumes "list_all isDigit ds" "ds \<noteq> []" "isDigit a" "isDigit b"
    and "of_nat (decimal ds) + spec_fractionValue [CHR ''.'', a, b] < float64Overflow"
  shows "ParseFloat (ds @ [CHR ''.'', a, b]) = Inr (of_nat (decimal ds) + spec_fractionValue [CHR ''.'', a, b])"
proof -
  have nd: "\<not> isDigit CHR ''.''" by (simp add: isDigit_def)
  have tw: "takeWhile isDigit (ds @ [CHR ''.'', a, b]) = ds"
    using assms(1) nd by (simp add: list_all_iff takeWhile_append2)
  have dw: "dropWhile isDigit (ds @ [CHR ''.'', a, b]) = [CHR ''.'', a, b]"
    using assms(1) nd by (simp add: list_all_iff dropWhile_append2)
  show ?thesis
    unfolding ParseFloat_def Let_def tw dw using assms(2-5)
    by (simp add: spec_fractionValue_def)
qed

lemma Find_nights_after:
  assumes "CHR ''f'' \<notin> set pre" "list_all isDigit ns" "ns \<noteq> []"
  shows "FindStringSubmatch nightsRegex (pre @ ''for '' @ ns @ '' nights'')
         = [''for '' @ ns @ '' night'', ns]"
  using Find_nights_skip [OF assms(1), of "''for '' @ ns @ '' nights''"]
    matchHere_nights [OF assms(2,3)] by simp

lemma fraction_shape:
  assumes "spec_fraction F" "F \<noteq> []"
  obtains a b where "F = [CHR ''.'', a, b]" "isDigit a" "isDigit b"
proof -
  from assms have len: "length F = 3" and hd: "hd F = CHR ''.''" and tl: "list_all isDigit (tl F)"
    by (auto simp: spec_fraction_def)
  from len obtain x a b where F: "F = [x, a, b]"
    by (auto simp: length_Suc_conv numeral_eq_Suc)
  with hd tl have "F = [CHR ''.'', a, b]" "isDigit a" "isDigit b" by simp_all
  then show thesis by (rule that)
qed

lemma parsePrice_fraction_nights:
  assumes "spec_amount X" "isDigit a" "isDigit b" "spec_numeral N" "0 < decimal N"
    and "of_nat (spec_amountValue X) + spec_fractionValue [CHR ''.'', a, b] < float64Overflow"
    and "of_nat (decimal N) < float64Overflow"
  shows "parsePrice (''$'' @ X @ [CHR ''.'', a, b] @ '' for '' @ N @ '' nights'')
         = (of_nat (spec_amountValue X) + spec_fractionValue [CHR ''.'', a, b]) / of_nat (decimal N)"
proof -
  let ?ds = "filter isDigit X"
  let ?c = "''$'' @ ?ds @ CHR ''.'' # a # b # '' for '' @ N @ '' nights''"
  have ds: "list_all isDigit ?ds" "?ds \<noteq> []"
    using assms(1) by (simp_all add: spec_amount_def list_all_iff)
  have ns: "list_all isDigit N" "N \<noteq> []"
    using assms(4) by (simp_all add: spec_numeral_def)
  have ab: "a \<noteq> CHR '',''" "b \<noteq> CHR '',''" "a \<noteq> CHR ''f''" "b \<noteq> CHR ''f''"
    using assms(2,3) digit_not_f by auto
  have cleaned: "ReplaceAll (''$'' @ X @ [CHR ''.'', a, b] @ '' for '' @ N @ '' nights'') '','' [] = ?c"
    using assms(1) ns(1) ab
    by (simp add: ReplaceAll_comma amount_cleaned numeral_cleaned spec_amount_def)
  have price: "FindStringSubmatch priceRegex ?c = [''$'' @ ?ds @ [CHR ''.'', a, b], ?ds @ [CHR ''.'', a, b]]"
    using matchHere_price_fraction [OF ds assms(2,3)] by simp
  have "CHR ''f'' \<notin> set (''$'' @ ?ds @ [CHR ''.'', a, b] @ '' '')"
    using ab digit_not_f by auto
  from Find_nights_after [OF this ns]
  have nights: "FindStringSubmatch nightsRegex ?c = [''for '' @ N @ '' night'', N]"
    by simp
  have pf: "ParseFloat (?ds @ [CHR ''.'', a, b])
        = Inr (of_nat (spec_amountValue X) + spec_fractionValue [CHR ''.'', a, b])"
    "ParseFloat N = Inr (of_nat (decimal N))"
    using assms(6,7) ParseFloat_fraction [OF ds assms(2,3)]
    by (simp_all add: ParseFloat_digits [OF ns] spec_amountValue_def)
  show ?thesis
    unfolding parsePrice_def cleaned Let_def price nights
    using assms(5) pf by simp
qed

lemma parsePrice_fraction_bare:
  assumes "spec_amount X" "isDigit a" "isDigit b"
    and "of_nat (spec_amountValue X) + spec_fractionValue [CHR ''.'', a, b] < float64Overflow"
  shows "parsePrice (''$'' @ X @ [CHR ''.'', a, b])
         = of_nat (spec_amountValue X) + spec_fractionValue [CHR ''.'', a, b]"
proof -
  let ?ds = "filter isDigit X"
  let ?c = "''$'' @ ?ds @ CHR ''.'' # a # b # []"
  have ds: "list_all isDigit ?ds" "?ds \<noteq> []"
    using assms(1) by (simp_all add: spec_amount_def list_all_iff)
  have ab: "a \<noteq> CHR '',''" "b \<noteq> CHR '',''" "a \<noteq> CHR ''f''" "b \<noteq> CHR ''f''"
    using assms(2,3) digit_not_f by auto
  have cleaned: "ReplaceAll (''$'' @ X @ [CHR ''.'', a, b]) '','' [] = ?c"
    using assms(1) ab by (simp add: ReplaceAll_comma amount_cleaned spec_amount_def)
  have price: "FindStringSubmatch priceRegex ?c = [''$'' @ ?ds @ [CHR ''.'', a, b], ?ds @ [CHR ''.'', a, b]]"
    using matchHere_price_fraction [OF ds assms(2,3)] by simp
  have "CHR ''f'' \<notin> set ?c"
    using ab digit_not_f by auto
  then have nights: "FindStringSubmatch nightsRegex ?c = []"
    by (rule Find_nights_none)
  have pf: "ParseFloat (?ds @ [CHR ''.'', a, b])
        = Inr (of_nat (spec_amountValue X) + spec_fractionValue [CHR ''.'', a, b])"
    using assms(4) ParseFloat_fraction [OF ds assms(2,3)] by (simp add: spec_amountValue_def)
  show ?thesis
    unfolding parsePrice_def cleaned Let_def price nights
    using pf by simp
qed

lemma fractionValue_Nil: "spec_fractionValue [] = 0"
  by (simp add: spec_fractionValue_def decimal_def)

lemma parsePrice_example_71: "parsePrice ''$71 for 2 nights'' = 35.5"
  by (simp add: parsePrice_def priceRegex_def nightsRegex_def matchHere_def ParseFloat_def
      isDigit_def isReSpace_def decimal_def digitVal_def float64Overflow_def)

lemma parsePrice_example_50: "parsePrice ''$50'' = 50"
  by (simp add: parsePrice_def priceRegex_def nightsRegex_def matchHere_def ParseFloat_def
      isDigit_def isReSpace_def decimal_def digitVal_def float64Overflow_def)

lemma parsePrice_example_free: "parsePrice ''free stay'' = 0"
  by (simp add: parsePrice_def priceRegex_def nightsRegex_def matchHere_def isDigit_def)

text \<open>
  Claim C3, as amended.  For a price written with digits and thousands separators,
  followed by nothing or by a dot and exactly two digits, and for a number of nights \<open>N\<close>
  written with digits, both below the \<open>float64\<close> overflow threshold, \<open>parsePrice\<close>
  returns the price per night: for a raw text \<open>$X for N nights\<close> with \<open>N > 0\<close> it returns
  \<open>X / N\<close>, and for a bare \<open>$X\<close> it returns \<open>X\<close>.  For a text with nothing to parse (no digit)
  it returns 0.  In particular \<open>parsePrice "$71 for 2 nights" = 35.5\<close>,
  \<open>parsePrice "$50" = 50\<close>, \<open>parsePrice "" = 0\<close> and \<open>parsePrice "free stay" = 0\<close>.
\<close>

theorem C3_parsePrice:
  "(spec_amount X \<and> spec_fraction F \<and> spec_numeral N \<and> 0 < decimal N
      \<and> of_nat (spec_amountValue X) + spec_fractionValue F < float64Overflow
      \<and> of_nat (decimal N) < float64Overflow
    \<longrightarrow> parsePrice (''$'' @ X @ F @ '' for '' @ N @ '' nights'')
          = (of_nat (spec_amountValue X) + spec_fractionValue F) / of_nat (decimal N))
   \<and> (spec_amount X \<and> spec_fraction F
      \<and> of_nat (spec_amountValue X) + spec_fractionValue F < float64Overflow
    \<longrightarrow> parsePrice (''$'' @ X @ F) = of_nat (spec_amountValue X) + spec_fractionValue F)
   \<and> ((\<forall>c\<in>set raw. \<not> isDigit c) \<longrightarrow> parsePrice raw = 0)
   \<and> parsePrice ''$71 for 2 nights'' = 35.5
   \<and> parsePrice ''$50'' = 50
   \<and> parsePrice [] = 0
   \<and> parsePrice ''free stay'' = 0"
proof (intro conjI impI)
  assume h: "spec_amount X \<and> spec_fraction F \<and> spec_numeral N \<and> 0 < decimal N
      \<and> of_nat (spec_amountValue X) + spec_fractionValue F < float64Overflow
      \<and> of_nat (decimal N) < float64Overflow"
  show "parsePrice (''$'' @ X @ F @ '' for '' @ N @ '' nights'')
          = (of_nat (spec_amountValue X) + spec_fractionValue F) / of_nat (decimal N)"
  proof (cases "F = []")
    case True
    with h parsePrice_for_nights [of X N] show ?thesis by (simp add: fractionValue_Nil)
  next
    case False
    with h obtain a b where F: "F = [CHR ''.'', a, b]" "isDigit a" "isDigit b"
      by (auto elim: fraction_shape)
    with h parsePrice_fraction_nights [of X a b N] show ?thesis by simp
  qed
next
  assume h: "spec_amount X \<and> spec_fraction F
      \<and> of_nat (spec_amountValue X) + spec_fractionValue F < float64Overflow"
  show "parsePrice (''$'' @ X @ F) = of_nat (spec_amountValue X) + spec_fractionValue F"
  proof (cases "F = []")
    case True
    with h parsePrice_bare [of X] show ?thesis by (simp add: fractionValue_Nil)
  next
    case False
    with h obtain a b where F: "F = [CHR ''.'', a, b]" "isDigit a" "isDigit b"
      by (auto elim: fraction_shape)
    with h parsePrice_fraction_bare [of X a b] show ?thesis by simp
  qed
next
  assume "\<forall>c\<in>set raw. \<not> isDigit c"
  then show "parsePrice raw = 0" by (rule parsePrice_nodigit)
next
  show "parsePrice ''$71 for 2 nights'' = 35.5" by (rule parsePrice_example_71)
next
  show "parsePrice ''$50'' = 50" by (rule parsePrice_example_50)
next
  show "parsePrice [] = 0" by (simp add: parsePrice_def)
next
  show "parsePrice ''free stay'' = 0" by (rule parsePrice_example_free)
qed

theorem C3_parsePrice_witness:
  "spec_amount ''1,250'' \<and> spec_fraction ''.50'' \<and> spec_fraction [] \<and> spec_numeral ''2'' \<and> 0 < decimal ''2''
   \<and> of_nat (spec_amountValue ''1,250'') + spec_fractionValue ''.50'' < float64Overflow
   \<and> of_nat (spec_amountValue ''1,250'') + spec_fractionValue [] < float64Overflow
   \<and> of_nat (decimal ''2'') < float64Overflow
   \<and> list_all (\<lambda>c. \<not> isDigit c) ''per night''
   \<and> parsePrice ''$1,250.50 for 2 nights'' = 625.25
   \<and> parsePrice ''$1,250 for 2 nights'' = 625
   \<and> parsePrice ''$1,250.50'' = 1250.5
   \<and> parsePrice ''$1,250'' = 1250
   \<and> parsePrice ''per night'' = 0"
proof -
  have h: "spec_amount ''1,250''" "spec_fraction ''.50''" "spec_fraction []" "spec_numeral ''2''" "0 < decimal ''2''"
    "of_nat (spec_amountValue ''1,250'') + spec_fractionValue ''.50'' < float64Overflow"
    "of_nat (spec_amountValue ''1,250'') + spec_fractionValue [] < float64Overflow"
    "of_nat (decimal ''2'') < float64Overflow"
    "\<forall>c\<in>set ''per night''. \<not> isDigit c"
    "spec_amountValue ''1,250'' = 1250" "decimal ''2'' = 2" "spec_fractionValue ''.50'' = 1 / 2"
    "spec_fractionValue [] = 0"
    by (simp_all add: spec_amount_def spec_numeral_def spec_amountValue_def decimal_def
        digitVal_def isDigit_def float64Overflow_def spec_fraction_def spec_fractionValue_def)
  show ?thesis
    using C3_parsePrice [of "''1,250''" "''.50''" "''2''" "''per night''"]
      C3_parsePrice [of "''1,250''" "[]" "''2''" "''per night''"] h
    by (simp add: list_all_iff)
qed

lemma decimal_zeros: "decimal (ds @ replicate n CHR ''0'') = decimal ds * 10 ^ n"
proof (induction n)
  case 0
  show ?case by simp
next
  case (Suc n)
  have "replicate (Suc n) CHR ''0'' = replicate n CHR ''0'' @ ''0''"
    by (simp add: replicate_append_same)
  then have "decimal (ds @ replicate (Suc n) CHR ''0'') = 10 * decimal (ds @ replicate n CHR ''0'')"
    by (simp add: decimal_def digitVal_def del: replicate.simps)
  with Suc show ?case by simp
qed

lemma huge_overflows: "float64Overflow \<le> of_nat (decimal (''1'' @ replicate 309 CHR ''0''))"
proof -
  have "decimal (''1'' @ replicate 309 CHR ''0'') = 10 ^ 309"
    unfolding decimal_zeros by (simp add: decimal_def digitVal_def)
  then show ?thesis by (simp add: float64Overflow_def)
qed

lemma huge_digits: "list_all isDigit (''1'' @ replicate 309 CHR ''0'')" "''1'' @ replicate 309 CHR ''0'' \<noteq> []"
  by (simp_all add: isDigit_def list_all_iff)

lemma parsePrice_huge: "parsePrice (''$1'' @ replicate 309 CHR ''0'') = 0"
proof -
  let ?ds = "''1'' @ replicate 309 CHR ''0''"
  have cleaned: "ReplaceAll (''$1'' @ replicate 309 CHR ''0'') '','' [] = ''$'' @ ?ds @ []"
    by (simp add: ReplaceAll_comma)
  have price: "FindStringSubmatch priceRegex (''$'' @ ?ds @ []) = [''$'' @ ?ds, ?ds]"
    by (rule Find_price_dollar [OF huge_digits]) simp
  have pf: "ParseFloat ?ds = Inl ErrRange"
    using huge_overflows by (simp only: ParseFloat_digits [OF huge_digits] if_True)
  show ?thesis
    unfolding parsePrice_def cleaned Let_def price
    using pf by simp
qed

lemma parsePrice_huge_nights: "parsePrice (''$50 for 1'' @ replicate 309 CHR ''0'' @ '' nights'') = 50"
proof -
  let ?N = "''1'' @ replicate 309 CHR ''0''"
  let ?c = "''$'' @ ''50'' @ '' for '' @ ?N @ '' nights''"
  have d50: "list_all isDigit ''50''" "''50'' \<noteq> []" by (simp_all add: isDigit_def)
  have cleaned: "ReplaceAll (''$50 for 1'' @ replicate 309 CHR ''0'' @ '' nights'') '','' [] = ?c"
    by (simp add: ReplaceAll_comma)
  have price: "FindStringSubmatch priceRegex ?c = [''$'' @ ''50'', ''50'']"
    by (rule Find_price_dollar [OF d50]) (simp add: isDigit_def)
  have nights: "FindStringSubmatch nightsRegex ?c = [''for '' @ ?N @ '' night'', ?N]"
    by (rule Find_nights_for [OF d50(1) huge_digits])
  have pf: "ParseFloat ?N = Inl ErrRange"
    using huge_overflows by (simp only: ParseFloat_digits [OF huge_digits] if_True)
  have p50: "ParseFloat ''50'' = Inr 50"
    by (simp add: ParseFloat_def isDigit_def decimal_def digitVal_def float64Overflow_def)
  show ?thesis
    unfolding parsePrice_def cleaned Let_def price nights
    using pf p50 by simp
qed

text \<open>
  The claim as first stated, for every price and every number of nights, fails.  The
  price pattern reads a fraction only when it has two digits: of \<open>$12.5\<close> it reads 12,
  so that \<open>parsePrice "$12.5" = 12\<close> and \<open>parsePrice "$12.5 for 2 nights" = 6\<close>.  A price
  too large for a \<open>float64\<close> (here 1 followed by 309 zeros) gives 0, and a number of
  nights too large for a \<open>float64\<close> leaves the price undivided.
\<close>

theorem C3_counterexample:
  "parsePrice ''$12.5'' = 12
   \<and> parsePrice ''$12.5 for 2 nights'' = 6
   \<and> parsePrice (''$1'' @ replicate 309 CHR ''0'') = 0
   \<and> parsePrice (''$50 for 1'' @ replicate 309 CHR ''0'' @ '' nights'') = 50"
proof (intro conjI)
  show "parsePrice ''$12.5'' = 12"
    by (simp add: parsePrice_def priceRegex_def nightsRegex_def matchHere_def ParseFloat_def
      isDigit_def isReSpace_def decimal_def digitVal_def float64Overflow_def)
  show "parsePrice ''$12.5 for 2 nights'' = 6"
    by (simp add: parsePrice_def priceRegex_def nightsRegex_def matchHere_def ParseFloat_def
      isDigit_def isReSpace_def decimal_def digitVal_def float64Overflow_def)
qed (rule parsePrice_huge, rule parsePrice_huge_nights)

subsection \<open>Location normalisation\<close>

lemma occursAt_bound: "sep \<noteq> [] \<Longrightarrow> occursAt sep s i \<Longrightarrow> i + length sep \<le> length s"
proof -
  assume a: "sep \<noteq> []" "occursAt sep s i"
  then have "length (take (length sep) (drop i s)) = length sep"
    by (simp add: occursAt_def)
  then have "length sep \<le> length s - i" by simp
  moreover have "i < length s"
  proof (rule ccontr)
    assume "\<not> i < length s"
    then have "drop i s = []" by simp
    with a show False by (simp add: occursAt_def)
  qed
  ultimately show ?thesis by simp
qed

lemma LastIndex_last:
  assumes "spec_lastOccurrence sep s i" "i \<le> length s"
  shows "LastIndex s sep = int i"
proof -
  let ?P = "occursAt sep s"
  have "[0..<Suc i + (length s - i)] = [0..<Suc i] @ [Suc i..<Suc i + (length s - i)]"
    by (rule upt_add_eq_append) simp
  then have "[0..<Suc (length s)] = [0..<Suc i] @ [Suc i..<Suc (length s)]"
    using assms(2) by simp
  then have split: "[0..<Suc (length s)] = [0..<i] @ i # [Suc i..<Suc (length s)]"
    by simp
  have later: "filter ?P [Suc i..<Suc (length s)] = []"
    using assms(1) by (auto simp: spec_lastOccurrence_def filter_empty_conv)
  have here: "?P i" using assms(1) by (simp add: spec_lastOccurrence_def)
  have "filter ?P (rev [0..<Suc (length s)])
      = rev (filter ?P [Suc i..<Suc (length s)]) @ filter ?P [i] @ rev (filter ?P [0..<i])"
    unfolding split by (simp add: rev_filter del: upt_Suc)
  also have "\<dots> = i # rev (filter ?P [0..<i])"
    unfolding later using here by simp
  finally show ?thesis
    by (simp add: LastIndex_def del: upt_Suc)
qed

lemma LastIndex_none:
  assumes "\<forall>j. \<not> occursAt sep s j"
  shows "LastIndex s sep = -1"
proof -
  have "filter (occursAt sep s) (rev [0..<Suc (length s)]) = []"
    using assms by (auto simp: filter_empty_conv)
  then show ?thesis by (simp add: LastIndex_def)
qed

lemma cleanLocation_stripped:
  assumes "TrimSpace loc = pre @ '' in '' @ post"
    and "\<forall>j. length pre < j \<longrightarrow> \<not> occursAt '' in '' (TrimSpace loc) j"
    and "length pre < 30"
  shows "cleanLocation loc = post"
proof -
  have "spec_lastOccurrence '' in '' (TrimSpace loc) (length pre)"
    using assms(1,2) by (simp add: spec_lastOccurrence_def occursAt_def)
  moreover have "length pre \<le> length (TrimSpace loc)" using assms(1) by simp
  ultimately have "LastIndex (TrimSpace loc) '' in '' = int (length pre)"
    by (rule LastIndex_last)
  then show ?thesis
    using assms(1,3) by (simp add: cleanLocation_def Let_def nat_add_distrib)
qed

lemma cleanLocation_far:
  assumes "spec_lastOccurrence '' in '' (TrimSpace loc) i" "30 \<le> i"
  shows "cleanLocation loc = TrimSpace loc"
proof -
  have "i + length '' in '' \<le> length (TrimSpace loc)"
    using assms(1) by (intro occursAt_bound) (simp_all add: spec_lastOccurrence_def)
  then have "LastIndex (TrimSpace loc) '' in '' = int i"
    using assms(1) by (intro LastIndex_last) simp_all
  then show ?thesis
    using assms(2) by (simp add: cleanLocation_def Let_def)
qed

lemma cleanLocation_none:
  assumes "\<forall>j. \<not> occursAt '' in '' (TrimSpace loc) j"
  shows "cleanLocation loc = TrimSpace loc"
  using LastIndex_none [OF assms] by (simp add: cleanLocation_def Let_def)

lemma spec_lastOccurrence_bounded:
  assumes "sep \<noteq> []"
  shows "spec_lastOccurrence sep s i
         = (occursAt sep s i \<and> list_all (\<lambda>j. \<not> occursAt sep s j) [Suc i..<length s])"
proof -
  have "\<not> occursAt sep s j" if "length s \<le> j" for j
    using occursAt_bound [OF assms, of s j] that assms by (cases sep) auto
  then have "(\<forall>j. i < j \<longrightarrow> \<not> occursAt sep s j) = (\<forall>j\<in>{Suc i..<length s}. \<not> occursAt sep s j)"
    by (metis Suc_leI atLeastLessThan_iff not_le Suc_le_lessD)
  then show ?thesis
    by (simp add: spec_lastOccurrence_def list_all_iff)
qed

lemma TrimSpace_example_padded: "TrimSpace ''  Condo in Bangkok '' = ''Condo in Bangkok''"
  by (simp add: TrimSpace_def TrimLeft.simps TrimRight.simps spacePrefix_def spaceSuffix_def
      unicodeSpaces_def)

lemma TrimSpace_example_two:
  "TrimSpace ''Condo in Bangkok near the Chao Phraya river in Thailand''
   = ''Condo in Bangkok near the Chao Phraya river in Thailand''"
  by (simp add: TrimSpace_def TrimLeft.simps TrimRight.simps spacePrefix_def spaceSuffix_def
      unicodeSpaces_def)

lemma TrimSpace_example_plain: "TrimSpace ''Bangkok'' = ''Bangkok''"
  by (simp add: TrimSpace_def TrimLeft.simps TrimRight.simps spacePrefix_def spaceSuffix_def
      unicodeSpaces_def)

lemma cleanLocation_example_bangkok: "cleanLocation ''Condo in Bangkok'' = ''Bangkok''"
  by (simp add: cleanLocation_def LastIndex_def occursAt_def TrimSpace_def TrimLeft.simps
      TrimRight.simps spacePrefix_def spaceSuffix_def unicodeSpaces_def)

text \<open>
  Claim C8, as amended.  \<open>cleanLocation\<close> first trims the white space around the
  location.  If the last occurrence of \<open>" in "\<close> in the trimmed location starts before
  byte index 30, only the portion after that occurrence is kept, so that
  \<open>"Condo in Bangkok"\<close> becomes \<open>"Bangkok"\<close>.  Otherwise the trimmed location is kept
  whole: when \<open>" in "\<close> does not occur, and also when its last occurrence starts at byte
  index 30 or later, whether or not an earlier occurrence lies within the first 30 bytes.
\<close>

theorem C8_cleanLocation:
  "(TrimSpace loc = pre @ '' in '' @ post
      \<and> spec_lastOccurrence '' in '' (TrimSpace loc) (length pre) \<and> length pre < 30
    \<longrightarrow> cleanLocation loc = post)
   \<and> (spec_lastOccurrence '' in '' (TrimSpace loc) i \<and> 30 \<le> i
    \<longrightarrow> cleanLocation loc = TrimSpace loc)
   \<and> ((\<forall>j. \<not> occursAt '' in '' (TrimSpace loc) j) \<longrightarrow> cleanLocation loc = TrimSpace loc)
   \<and> cleanLocation ''Condo in Bangkok'' = ''Bangkok''"
proof -
  have "cleanLocation loc = post"
    if "TrimSpace loc = pre @ '' in '' @ post"
      and "spec_lastOccurrence '' in '' (TrimSpace loc) (length pre)" and "length pre < 30"
    using that by (intro cleanLocation_stripped [of loc pre post]) (simp_all add: spec_lastOccurrence_def)
  then show ?thesis
    using cleanLocation_far [of loc i] cleanLocation_none [of loc] cleanLocation_example_bangkok
    by blast
qed

theorem C8_cleanLocation_witness:
  "TrimSpace ''  Condo in Bangkok '' = ''Condo'' @ '' in '' @ ''Bangkok''
   \<and> spec_lastOccurrence '' in '' (TrimSpace ''  Condo in Bangkok '') (length ''Condo'')
   \<and> length ''Condo'' < 30
   \<and> cleanLocation ''  Condo in Bangkok '' = ''Bangkok''
   \<and> spec_lastOccurrence '' in ''
        (TrimSpace ''Condo in Bangkok near the Chao Phraya river in Thailand'') 43
   \<and> cleanLocation ''Condo in Bangkok near the Chao Phraya river in Thailand''
        = ''Condo in Bangkok near the Chao Phraya river in Thailand''
   \<and> (\<forall>j. \<not> occursAt '' in '' (TrimSpace ''Bangkok'') j)
   \<and> cleanLocation ''Bangkok'' = ''Bangkok''"
proof -
  have a: "spec_lastOccurrence '' in '' ''Condo in Bangkok'' (length ''Condo'')"
    by (simp add: spec_lastOccurrence_bounded occursAt_def)
  have b: "spec_lastOccurrence '' in ''
        ''Condo in Bangkok near the Chao Phraya river in Thailand'' 43"
    by (simp add: spec_lastOccurrence_bounded occursAt_def)
  have c: "\<not> occursAt '' in '' ''Bangkok'' j" for j
  proof
    assume "occursAt '' in '' ''Bangkok'' j"
    then have "j + length '' in '' \<le> length ''Bangkok''"
      by (intro occursAt_bound) simp_all
    then have "j \<in> {0, 1, 2, 3}" by auto
    with \<open>occursAt '' in '' ''Bangkok'' j\<close> show False
      by (auto simp: occursAt_def)
  qed
  show ?thesis
    using C8_cleanLocation [of "''  Condo in Bangkok ''" "''Condo''" "''Bangkok''" 0]
      C8_cleanLocation [of "''Condo in Bangkok near the Chao Phraya river in Thailand''" "[]" "[]" 43]
      C8_cleanLocation [of "''Bangkok''" "[]" "[]" 0]
      a b c
    by (simp add: TrimSpace_example_padded TrimSpace_example_two TrimSpace_example_plain)
qed

text \<open>
  The claim as first stated fails: this location contains \<open>" in "\<close> at byte index 5,
  within its first 30 bytes, and is not stripped, because its last occurrence of
  \<open>" in "\<close> starts at byte index 43.
\<close>

theorem C8_counterexample:
  "occursAt '' in '' ''Condo in Bangkok near the Chao Phraya river in Thailand'' 5
   \<and> LastIndex ''Condo in Bangkok near the Chao Phraya river in Thailand'' '' in '' = 43
   \<and> cleanLocation ''Condo in Bangkok near the Chao Phraya river in Thailand''
        = ''Condo in Bangkok near the Chao Phraya river in Thailand''"
  by (simp add: cleanLocation_def LastIndex_def occursAt_def TrimSpace_example_two)

section \<open>Properties of the retry executor\<close>

lemma retryLoop_failures:
  assumes "\<forall>k. a \<le> k \<and> k < a + c \<longrightarrow> attemptResult fn s0 k = Some (errs k)"
    and "a + c \<le> n"
  shows "retryLoop (int n) fn (int a) lastErr evs (stateAfter fn s0 a)
         = retryLoop (int n) fn (int (a + c)) (if c = 0 then lastErr else Some (errs (a + c - 1)))
             (evs @ failedEvents backoff (int n) errs a c) (stateAfter fn s0 (a + c))"
  using assms
proof (induction c arbitrary: a lastErr evs)
  case 0
  show ?case by simp
next
  case (Suc c)
  have fail: "attemptResult fn s0 a = Some (errs a)" using Suc.prems by simp
  then obtain s' where fn: "fn (stateAfter fn s0 a) = (Some (errs a), s')"
    by (cases "fn (stateAfter fn s0 a)") (auto simp: attemptResult_def)
  then have s': "s' = stateAfter fn s0 (Suc a)" by simp
  have lt: "a < n" using Suc.prems by simp
  have step: "retryLoop (int n) fn (int a) lastErr evs (stateAfter fn s0 a)
      = retryLoop (int n) fn (int (Suc a)) (Some (errs a))
          (evs @ beforeAttempt backoff (int n) a @ [ErrorAttemptFailed (int a + 1) (errs a)])
          (stateAfter fn s0 (Suc a))"
    by (subst retryLoop.simps) (simp add: lt fn s' beforeAttempt_def add.commute del: stateAfter.simps)
  have IH: "retryLoop (int n) fn (int (Suc a)) (Some (errs a))
          (evs @ beforeAttempt backoff (int n) a @ [ErrorAttemptFailed (int a + 1) (errs a)])
          (stateAfter fn s0 (Suc a))
      = retryLoop (int n) fn (int (Suc a + c)) (if c = 0 then Some (errs a) else Some (errs (Suc a + c - 1)))
          ((evs @ beforeAttempt backoff (int n) a @ [ErrorAttemptFailed (int a + 1) (errs a)])
             @ failedEvents backoff (int n) errs (Suc a) c)
          (stateAfter fn s0 (Suc a + c))"
    using Suc.prems by (intro Suc.IH) auto
  show ?case
    unfolding step IH by (auto simp del: stateAfter.simps)
qed

lemma retryLoop_exit:
  "retryLoop (int n) fn (int n) lastErr evs s = (Some (AllAttemptsFailed (int n) lastErr), evs, s)"
  by (subst retryLoop.simps) simp

lemma RetryWithBackoff_all_fail:
  assumes "\<forall>k<n. attemptResult fn s k = Some (errs k)" "0 < n"
  shows "RetryWithBackoff (int n) fn s
         = (Some (AllAttemptsFailed (int n) (Some (errs (n - 1)))),
            failedEvents backoff (int n) errs 0 n, stateAfter fn s n)"
  using retryLoop_failures [of 0 n fn s errs n None "[]"] assms
  by (simp add: RetryWithBackoff_def retryLoop_exit)

lemma RetryWithBackoff_success:
  assumes "\<forall>k<m. attemptResult fn s k = Some (errs k)" "attemptResult fn s m = None" "m < n"
  shows "RetryWithBackoff (int n) fn s
         = (None, failedEvents backoff (int n) errs 0 m @ beforeAttempt backoff (int n) m,
            stateAfter fn s (Suc m))"
proof -
  obtain s' where fn: "fn (stateAfter fn s m) = (None, s')"
    using assms(2) by (cases "fn (stateAfter fn s m)") (auto simp: attemptResult_def)
  have "retryLoop (int n) fn (int m) lastErr evs (stateAfter fn s m)
        = (None, evs @ beforeAttempt backoff (int n) m, stateAfter fn s (Suc m))" for lastErr evs
    using assms(3) by (subst retryLoop.simps) (simp add: fn beforeAttempt_def add.commute)
  then show ?thesis
    using retryLoop_failures [of 0 m fn s errs n None "[]"] assms
    by (simp add: RetryWithBackoff_def del: stateAfter.simps(2))
qed

lemma wrap64_id: "- (2 ^ 63) \<le> x \<Longrightarrow> x < 2 ^ 63 \<Longrightarrow> wrap64 x = x"
  by (simp add: wrap64_def)

lemma wrap64_lt: "wrap64 x < 2 ^ 63"
proof -
  have "(x + 2 ^ 63) mod 2 ^ 64 < (2 ^ 64 :: int)" by simp
  then show ?thesis by (simp add: wrap64_def)
qed

lemma backoff_small:
  assumes "0 \<le> k" "k \<le> 96038"
  shows "backoff k = squareSeconds k"
proof -
  have sq: "k * k \<le> 96038 * 96038" using assms by (intro mult_mono) auto
  have nn: "0 \<le> k * k" by simp
  have lb: "- (2 ^ 63) \<le> k * k" by (rule order_trans [OF _ nn]) simp
  have nn': "0 \<le> k * k * Second" using nn by (simp add: Second_def)
  have lb': "- (2 ^ 63) \<le> k * k * Second" by (rule order_trans [OF _ nn']) simp
  have "wrap64 (k * k) = k * k"
    using sq lb by (intro wrap64_id) auto
  moreover have "wrap64 (k * k * Second) = k * k * Second"
    using sq lb' by (intro wrap64_id) (auto simp: Second_def)
  ultimately show ?thesis by (simp add: backoff_def squareSeconds_def)
qed

lemma failedEvents_cong:
  "(\<forall>k. a \<le> k \<and> k < a + c \<longrightarrow> d (int k) = d' (int k))
   \<Longrightarrow> failedEvents d n errs a c = failedEvents d' n errs a c"
proof (induction c arbitrary: a)
  case 0
  show ?case by simp
next
  case (Suc c)
  have "d (int a) = d' (int a)" using Suc.prems by simp
  moreover have "failedEvents d n errs (Suc a) c = failedEvents d' n errs (Suc a) c"
    using Suc.prems by (intro Suc.IH) auto
  ultimately show ?case by (simp add: beforeAttempt_def)
qed

lemma sleepsOf_append: "sleepsOf (xs @ ys) = sleepsOf xs @ sleepsOf ys"
  by (induction xs rule: sleepsOf.induct) auto

lemma attemptsOf_append: "attemptsOf (xs @ ys) = attemptsOf xs @ attemptsOf ys"
  by (induction xs rule: attemptsOf.induct) auto

lemma sleepsOf_failedEvents:
  "sleepsOf (failedEvents d n errs a c) = map (\<lambda>k. d (int k)) (filter (\<lambda>k. k \<noteq> 0) [a..<a + c])"
proof (induction c arbitrary: a)
  case 0
  show ?case by simp
next
  case (Suc c)
  have "[a..<a + Suc c] = a # [Suc a..<Suc a + c]" by (simp add: upt_conv_Cons)
  then show ?case
    using Suc.IH [of "Suc a"] by (simp add: sleepsOf_append beforeAttempt_def del: upt_Suc)
qed

lemma attemptsOf_failedEvents:
  "attemptsOf (failedEvents d n errs a c) = map (\<lambda>k. int k + 1) [a..<a + c]"
proof (induction c arbitrary: a)
  case 0
  show ?case by simp
next
  case (Suc c)
  have "[a..<a + Suc c] = a # [Suc a..<Suc a + c]" by (simp add: upt_conv_Cons)
  then show ?case
    using Suc.IH [of "Suc a"] by (simp add: attemptsOf_append beforeAttempt_def del: upt_Suc)
qed

lemma filter_nonzero_upt: "filter (\<lambda>k. k \<noteq> 0) [0..<n] = [1..<n]"
proof (cases n)
  case 0
  then show ?thesis by simp
next
  case (Suc m)
  have "[0..<Suc m] = 0 # [1..<Suc m]" by (simp add: upt_conv_Cons del: upt_Suc)
  moreover have "filter (\<lambda>k. k \<noteq> 0) [1..<Suc m] = [1..<Suc m]"
    by (rule filter_True) auto
  ultimately show ?thesis using Suc by (simp del: upt_Suc)
qed

lemma sleepsOf_failedEvents_0:
  "sleepsOf (failedEvents d n errs 0 c) = map (\<lambda>k. d (int k)) [1..<c]"
proof -
  have "sleepsOf (failedEvents d n errs 0 c)
        = map (\<lambda>k. d (int k)) (filter (\<lambda>k. k \<noteq> 0) [0..<0 + c])"
    by (rule sleepsOf_failedEvents)
  also have "filter (\<lambda>k. k \<noteq> 0) [0..<0 + c] = [1..<c]"
    using filter_nonzero_upt [of c] by (simp only: add_0)
  finally show ?thesis .
qed

lemma sleepsOf_beforeAttempt:
  "sleepsOf (beforeAttempt d n m) = (if m = 0 then [] else [d (int m)])"
  by (simp add: beforeAttempt_def)

lemma attemptsOf_beforeAttempt: "attemptsOf (beforeAttempt d n m) = []"
  by (simp add: beforeAttempt_def)

lemma sleepsOf_until_success:
  "sleepsOf (failedEvents d n errs 0 m @ beforeAttempt d n m) = map (\<lambda>k. d (int k)) [1..<Suc m]"
proof -
  have "sleepsOf (failedEvents d n errs 0 m @ beforeAttempt d n m)
        = map (\<lambda>k. d (int k)) [1..<m] @ (if m = 0 then [] else [d (int m)])"
    by (simp only: sleepsOf_append sleepsOf_failedEvents_0 sleepsOf_beforeAttempt)
  also have "\<dots> = map (\<lambda>k. d (int k)) [1..<Suc m]"
    by (cases "m = 0") simp_all
  finally show ?thesis .
qed

lemma attempt_numbers: "map (\<lambda>k. int k + 1) [0..<0 + n] = map int [1..<Suc n]"
  by (simp add: map_Suc_upt [symmetric] del: upt_Suc)

lemma backoff_squares:
  "n \<le> 96039 \<Longrightarrow> map (\<lambda>k. backoff (int k)) [1..<n] = map (\<lambda>k. int k * int k * Second) [1..<n]"
proof (rule map_cong [OF refl])
  fix k assume "n \<le> 96039" "k \<in> set [1..<n]"
  then have "int k \<le> 96038" by simp
  then show "backoff (int k) = int k * int k * Second"
    using backoff_small [of "int k"] by (simp add: squareSeconds_def)
qed

text \<open>
  Claim C5, as amended.  For every \<open>n \<ge> 1\<close>, the retry executor run with
  \<open>maxRetries = n\<close> and an operation whose \<open>n\<close> attempts all fail makes exactly \<open>n\<close>
  attempts, sleeps before attempt \<open>k\<close> (counted from 0; nothing before attempt 0) the
  64-bit duration \<open>Duration(k * k) * Second\<close>, and returns an error that wraps the failure
  of the last attempt and states \<open>n\<close>.  When attempt \<open>m\<close> succeeds after \<open>m\<close> failures, the
  executor returns \<open>nil\<close> at once: the operation has run \<open>m + 1\<close> times, and the last
  event is the sleep before attempt \<open>m\<close>.  The pause before attempt \<open>k\<close> is \<open>k * k\<close>
  seconds for every \<open>k\<close> up to 96038: so are all the pauses of a run of at most 96039
  attempts, and all the pauses before a success at an attempt up to 96038.
\<close>

theorem C5_RetryWithBackoff:
  "(1 \<le> n \<and> (\<forall>k<n. attemptResult fn s k = Some (errs k))
    \<longrightarrow> RetryWithBackoff (int n) fn s
          = (Some (AllAttemptsFailed (int n) (Some (errs (n - 1)))),
             failedEvents backoff (int n) errs 0 n, stateAfter fn s n)
        \<and> attemptsOf (failedEvents backoff (int n) errs 0 n) = map int [1..<Suc n]
        \<and> sleepsOf (failedEvents backoff (int n) errs 0 n) = map (\<lambda>k. backoff (int k)) [1..<n]
        \<and> (n \<le> 96039 \<longrightarrow> sleepsOf (failedEvents backoff (int n) errs 0 n)
                              = map (\<lambda>k. int k * int k * Second) [1..<n]))
   \<and> (m < n \<and> (\<forall>k<m. attemptResult fn s k = Some (errs k)) \<and> attemptResult fn s m = None
    \<longrightarrow> RetryWithBackoff (int n) fn s
          = (None, failedEvents backoff (int n) errs 0 m @ beforeAttempt backoff (int n) m,
             stateAfter fn s (Suc m))
        \<and> attemptsOf (failedEvents backoff (int n) errs 0 m @ beforeAttempt backoff (int n) m)
            = map int [1..<Suc m]
        \<and> sleepsOf (failedEvents backoff (int n) errs 0 m @ beforeAttempt backoff (int n) m)
            = map (\<lambda>k. backoff (int k)) [1..<Suc m]
        \<and> (m \<le> 96038 \<longrightarrow>
              sleepsOf (failedEvents backoff (int n) errs 0 m @ beforeAttempt backoff (int n) m)
              = map (\<lambda>k. int k * int k * Second) [1..<Suc m]))
   \<and> (k \<le> 96038 \<longrightarrow> backoff (int k) = int k * int k * Second)"
proof (intro conjI impI)
  assume a: "1 \<le> n \<and> (\<forall>k<n. attemptResult fn s k = Some (errs k))"
  then show "RetryWithBackoff (int n) fn s
          = (Some (AllAttemptsFailed (int n) (Some (errs (n - 1)))),
             failedEvents backoff (int n) errs 0 n, stateAfter fn s n)"
    by (intro RetryWithBackoff_all_fail) simp_all
  show "attemptsOf (failedEvents backoff (int n) errs 0 n) = map int [1..<Suc n]"
    unfolding attemptsOf_failedEvents by (rule attempt_numbers)
  show "sleepsOf (failedEvents backoff (int n) errs 0 n) = map (\<lambda>k. backoff (int k)) [1..<n]"
    by (rule sleepsOf_failedEvents_0)
  assume "n \<le> 96039"
  then show "sleepsOf (failedEvents backoff (int n) errs 0 n)
      = map (\<lambda>k. int k * int k * Second) [1..<n]"
    unfolding sleepsOf_failedEvents_0 by (rule backoff_squares)
next
  assume a: "m < n \<and> (\<forall>k<m. attemptResult fn s k = Some (errs k)) \<and> attemptResult fn s m = None"
  then show "RetryWithBackoff (int n) fn s
          = (None, failedEvents backoff (int n) errs 0 m @ beforeAttempt backoff (int n) m,
             stateAfter fn s (Suc m))"
    by (intro RetryWithBackoff_success) simp_all
  show "attemptsOf (failedEvents backoff (int n) errs 0 m @ beforeAttempt backoff (int n) m)
            = map int [1..<Suc m]"
    unfolding attemptsOf_append attemptsOf_beforeAttempt attemptsOf_failedEvents append_Nil2
    by (rule attempt_numbers)
  show "sleepsOf (failedEvents backoff (int n) errs 0 m @ beforeAttempt backoff (int n) m)
            = map (\<lambda>k. backoff (int k)) [1..<Suc m]"
    by (rule sleepsOf_until_success)
  assume "m \<le> 96038"
  then have "Suc m \<le> 96039" by simp
  then show "sleepsOf (failedEvents backoff (int n) errs 0 m @ beforeAttempt backoff (int n) m)
      = map (\<lambda>k. int k * int k * Second) [1..<Suc m]"
    unfolding sleepsOf_until_success by (rule backoff_squares)
next
  assume "k \<le> 96038"
  then show "backoff (int k) = int k * int k * Second"
    using backoff_small [of "int k"] by (simp add: squareSeconds_def)
qed

theorem C5_RetryWithBackoff_witness:
  "attemptResult (\<lambda>c. (Some (External (replicate c CHR ''x'')), Suc c)) 0 0 = Some (External [])
   \<and> attemptResult (\<lambda>c. (Some (External (replicate c CHR ''x'')), Suc c)) 0 1 = Some (External ''x'')
   \<and> attemptResult (\<lambda>c. (Some (External (replicate c CHR ''x'')), Suc c)) 0 2 = Some (External ''xx'')
   \<and> (3::nat) \<le> 96039
   \<and> RetryWithBackoff 3 (\<lambda>c. (Some (External (replicate c CHR ''x'')), Suc c)) 0
       = (Some (AllAttemptsFailed 3 (Some (External ''xx''))),
          [ErrorAttemptFailed 1 (External []),
           WarnRetrying 2 3 1000000000, Sleep 1000000000, ErrorAttemptFailed 2 (External ''x''),
           WarnRetrying 3 3 4000000000, Sleep 4000000000, ErrorAttemptFailed 3 (External ''xx'')],
          3)
   \<and> sleepsOf (fst (snd (RetryWithBackoff 3 (\<lambda>c. (Some (External (replicate c CHR ''x'')), Suc c)) 0)))
       = [1 * 1 * Second, 2 * 2 * Second]
   \<and> attemptResult (\<lambda>c. (if c = 1 then None else Some (External ''x''), Suc c)) 0 0 = Some (External ''x'')
   \<and> attemptResult (\<lambda>c. (if c = 1 then None else Some (External ''x''), Suc c)) 0 1 = None
   \<and> (1::nat) \<le> 96038
   \<and> RetryWithBackoff 3 (\<lambda>c. (if c = 1 then None else Some (External ''x''), Suc c)) 0
       = (None, [ErrorAttemptFailed 1 (External ''x''), WarnRetrying 2 3 1000000000, Sleep 1000000000], 2)
   \<and> sleepsOf (fst (snd (RetryWithBackoff 3 (\<lambda>c. (if c = 1 then None else Some (External ''x''), Suc c)) 0)))
       = [1 * 1 * Second]
   \<and> (2::nat) \<le> 96038 \<and> backoff 2 = 2 * 2 * Second"
proof -
  let ?f = "\<lambda>c::nat. (Some (External (replicate c CHR ''x'')), Suc c)"
  let ?g = "\<lambda>c::nat. (if c = 1 then None else Some (External ''x''), Suc c)"
  have f: "attemptResult ?f 0 k = Some (External (replicate k CHR ''x''))" "stateAfter ?f 0 k = k" for k
    by (induction k) (simp_all add: attemptResult_def)
  have g: "attemptResult ?g 0 0 = Some (External ''x'')" "attemptResult ?g 0 1 = None"
    "stateAfter ?g 0 2 = 2"
    by (simp_all add: attemptResult_def numeral_2_eq_2)
  have three: "(3::nat) = Suc (Suc (Suc 0))" by simp
  have b: "backoff 1 = 1000000000" "backoff 2 = 4000000000"
    by (simp_all add: backoff_def wrap64_def Second_def)
  show ?thesis
    using C5_RetryWithBackoff [of 3 ?f 0 "\<lambda>k. External (replicate k CHR ''x'')" 0 2]
      C5_RetryWithBackoff [of 3 ?g 0 "\<lambda>k. External ''x''" 1 2] f g b
    by (simp add: three Second_def beforeAttempt_def numeral_2_eq_2)
qed

lemma sleep_in_failedEvents:
  "0 < k \<Longrightarrow> a \<le> k \<Longrightarrow> k < a + c \<Longrightarrow> Sleep (d (int k)) \<in> set (failedEvents d n errs a c)"
proof (induction c arbitrary: a)
  case 0
  then show ?case by simp
next
  case (Suc c)
  show ?case
  proof (cases "k = a")
    case True
    with Suc.prems show ?thesis by (simp add: beforeAttempt_def)
  next
    case False
    with Suc.prems have "Sleep (d (int k)) \<in> set (failedEvents d n errs (Suc a) c)"
      by (intro Suc.IH) auto
    then show ?thesis by simp
  qed
qed

lemma sleeps_of_failedEvents:
  "Sleep x \<in> set (failedEvents d n errs a c) \<Longrightarrow> \<exists>k. x = d (int k)"
  by (induction c arbitrary: a) (auto simp: beforeAttempt_def split: if_splits)

lemma backoff_lt: "backoff k < 2 ^ 63"
  unfolding backoff_def by (rule wrap64_lt)

lemma backoff_96039: "backoff 96039 = - 9223254552709551616"
  by (simp add: backoff_def wrap64_def Second_def)

text \<open>
  The claim as first stated, for every number of attempts, fails at 96040: the pause
  before attempt 96039 is \<open>96039 * 96039 * 10^9\<close> nanoseconds, more than a 64-bit
  \<open>Duration\<close> holds; it wraps around to a negative duration and \<open>time.Sleep\<close> returns
  at once.
\<close>

theorem C5_counterexample:
  "Sleep (96039 * 96039 * Second)
     \<notin> set (fst (snd (RetryWithBackoff 96040 (\<lambda>s::unit. (Some (External ''down''), s)) ())))
   \<and> Sleep (- 9223254552709551616)
     \<in> set (fst (snd (RetryWithBackoff 96040 (\<lambda>s::unit. (Some (External ''down''), s)) ())))"
proof -
  let ?fn = "\<lambda>s::unit. (Some (External ''down''), s)"
  let ?evs = "failedEvents backoff (int 96040) (\<lambda>k. External ''down'') 0 96040"
  have "\<forall>k<96040. attemptResult ?fn () k = Some (External ''down'')"
    by (simp add: attemptResult_def)
  then have run: "RetryWithBackoff (int 96040) ?fn ()
      = (Some (AllAttemptsFailed (int 96040) (Some (External ''down''))), ?evs, stateAfter ?fn () 96040)"
    by (intro RetryWithBackoff_all_fail) simp_all
  have "Sleep (backoff (int 96039)) \<in> set ?evs"
    by (rule sleep_in_failedEvents) simp_all
  then have mem: "Sleep (- 9223254552709551616) \<in> set ?evs"
    by (simp add: backoff_96039)
  have "Sleep (96039 * 96039 * Second) \<notin> set ?evs"
  proof
    assume "Sleep (96039 * 96039 * Second) \<in> set ?evs"
    then obtain k where "96039 * 96039 * Second = backoff (int k)"
      using sleeps_of_failedEvents by blast
    then have "96039 * 96039 * Second < (2 ^ 63 :: int)"
      using backoff_lt [of "int k"] by simp
    then show False by (simp add: Second_def)
  qed
  with mem run show ?thesis by simp
qed

section \<open>Properties of the scraper\<close>

subsection \<open>What each step leaves unchanged\<close>

lemma retryLoop_invariant:
  assumes "\<And>s err s'. P s \<Longrightarrow> fn s = (err, s') \<Longrightarrow> P s'" and "P s"
    and "retryLoop n fn a lastErr evs s = (err, evs', s')"
  shows "P s'"
  using assms
proof (induction n fn a lastErr evs s rule: retryLoop.induct)
  case (1 maxRetries fn attempt lastErr evs s)
  show ?case
  proof (cases "attempt < maxRetries")
    case False
    with "1.prems"(2,3) show ?thesis by (simp add: retryLoop.simps)
  next
    case True
    obtain r s1 where fn: "fn s = (r, s1)" by (cases "fn s")
    have P1: "P s1" using "1.prems"(1) [OF "1.prems"(2) fn] .
    show ?thesis
    proof (cases r)
      case None
      with True fn "1.prems"(3) have "s' = s1"
        by (subst (asm) retryLoop.simps) (simp add: Let_def)
      with P1 show ?thesis by simp
    next
      case (Some e)
      show ?thesis
        using "1.IH" [OF True refl _ _ "1.prems"(1) P1] True fn Some "1.prems"(3)
        by (subst (asm) (2) retryLoop.simps) (auto simp: Let_def)
    qed
  qed
qed

lemma scrapePage_frame:
  assumes "scrapePage e s pageURL sectionName = (listings, nextURL, err, s')"
  shows "cfg s' = cfg s \<and> seenURLs s' = seenURLs s"
proof -
  obtain err0 evs ls nx s0 where
    r: "RetryWithBackoff (MaxRetries (cfg s)) (pageAttempt e pageURL sectionName) ([], [], s)
        = (err0, evs, ls, nx, s0)"
    by (metis prod_cases5)
  let ?P = "\<lambda>t :: RawListing list \<times> string \<times> AirbnbScraper.
              cfg (snd (snd t)) = cfg s \<and> seenURLs (snd (snd t)) = seenURLs s"
  have "?P (ls, nx, s0)"
  proof (rule retryLoop_invariant [where P = ?P])
    show "?P ([], [], s)" by simp
    show "retryLoop (MaxRetries (cfg s)) (pageAttempt e pageURL sectionName) 0 None [] ([], [], s)
          = (err0, evs, ls, nx, s0)"
      using r by (simp add: RetryWithBackoff_def)
    show "\<And>t err' t'. ?P t \<Longrightarrow> pageAttempt e pageURL sectionName t = (err', t') \<Longrightarrow> ?P t'"
      by (auto simp: pageAttempt_def Let_def split: prod.splits pageLoad.splits)
  qed
  with r assms show ?thesis by (auto simp: scrapePage_def)
qed

lemma enrichDetail_frame:
  assumes "enrichDetail e s l = (l', s')"
  shows "cfg s' = cfg s \<and> seenURLs s' = seenURLs s \<and> URL l' = URL l"
  using assms
  by (auto simp: enrichDetail_def Let_def logEvent_def split: if_splits sum.splits)

lemma Wait_frame [simp]: "cfg (Wait s) = cfg s" "seenURLs (Wait s) = seenURLs s"
  "requests (Wait s) = requests s"
  by (simp_all add: Wait_def logEvent_def)

lemma logEvent_frame [simp]: "cfg (logEvent ev s) = cfg s" "seenURLs (logEvent ev s) = seenURLs s"
  "requests (logEvent ev s) = requests s"
  by (simp_all add: logEvent_def)

lemma isSeen_Wait [simp]: "isSeen (Wait s) u = isSeen s u" "isSeen (logEvent ev s) u = isSeen s u"
  by (simp_all add: isSeen_def)

lemma kept_none: "cfg s' = cfg s \<Longrightarrow> seenURLs s' = seenURLs s \<Longrightarrow> kept s [] s'"
  by (simp add: kept_def isSeen_def)

lemma kept_trans: "kept s a s1 \<Longrightarrow> kept s1 b s2 \<Longrightarrow> kept s (a @ b) s2"
  unfolding kept_def by (fastforce simp: image_iff)

lemma kept_one:
  assumes "\<not> isSeen s (URL l)" "cfg s' = cfg s" "seenURLs s' = (seenURLs s)(URL l \<mapsto> True)"
    "URL l' = URL l"
  shows "kept s [l'] s'"
  using assms by (auto simp: kept_def isSeen_def)

lemma collectPage_kept:
  "collectPage e ls collected s = (collected', s')
   \<Longrightarrow> \<exists>new. collected' = collected @ new \<and> kept s new s'"
proof (induction e ls collected s rule: collectPage.induct)
  case (1 e collected s)
  then show ?case by (auto intro: kept_none)
next
  case (2 e l ls collected s)
  show ?case
  proof (cases "PropertiesPerPage (cfg s) \<le> int (length collected)")
    case True
    with "2.prems" show ?thesis by (auto intro: kept_none)
  next
    case quota: False
    show ?thesis
    proof (cases "isSeen s (URL l)")
      case True
      with quota "2.prems" "2.IH"(1) show ?thesis by simp
    next
      case False
      let ?s1 = "s\<lparr>seenURLs := (seenURLs s)(URL l \<mapsto> True)\<rparr>"
      obtain l' s2 where
        en: "(if Description l = [] \<and> URL l \<noteq> [] then enrichDetail e (Wait ?s1) l else (l, ?s1)) = (l', s2)"
        by (metis surj_pair)
      then have fr: "cfg s2 = cfg s \<and> seenURLs s2 = (seenURLs s)(URL l \<mapsto> True) \<and> URL l' = URL l"
        using enrichDetail_frame [of e "Wait ?s1" l l' s2] by (auto split: if_splits)
      then have k1: "kept s [l'] s2" using False by (intro kept_one) auto
      have rec: "collectPage e ls (collected @ [l']) s2 = (collected', s')"
        using quota False en "2.prems" by (simp add: Let_def)
      obtain new where "collected' = (collected @ [l']) @ new" "kept s2 new s'"
        using "2.IH"(2) [OF quota False refl en [symmetric] rec] by blast
      with k1 show ?thesis
        using kept_trans [of s "[l']" s2 new s'] by auto
    qed
  qed
qed

subsection \<open>The listings a crawl keeps\<close>

lemma sectionLoop_kept:
  "reached (sectionLoop fuel e sec url page collected s) = (collected', s')
   \<Longrightarrow> \<exists>new. collected' = collected @ new \<and> kept s new s'"
proof (induction fuel e sec url page collected s rule: sectionLoop.induct)
  case (1 e sec currentURL page collected s)
  then show ?case by (auto intro: kept_none split: if_splits)
next
  case (2 fuel e sec currentURL page collected s)
  let ?q = "PropertiesPerPage (cfg s)"
  show ?case
  proof (cases "int (length collected) < ?q")
    case False
    with "2.prems" show ?thesis by (auto intro: kept_none)
  next
    case True
    let ?s0 = "logEvent (InfoPage (Name sec) page (int (length collected)) ?q) s"
    obtain listings nextURL err s1 where
      sp: "scrapePage e ?s0 currentURL (Name sec) = (listings, nextURL, err, s1)"
      by (metis prod_cases4)
    have fr1: "cfg s1 = cfg s" "seenURLs s1 = seenURLs s"
      using scrapePage_frame [OF sp] by simp_all
    show ?thesis
    proof (cases err)
      case (Some x)
      with True sp "2.prems" fr1 show ?thesis by (auto intro!: kept_none simp: Let_def)
    next
      case None
      show ?thesis
      proof (cases "listings = []")
        case True
        with \<open>int (length collected) < ?q\<close> None sp "2.prems" fr1 show ?thesis
          by (auto intro!: kept_none simp: Let_def)
      next
        case False
        obtain c2 s2 where cp: "collectPage e listings collected s1 = (c2, s2)"
          by (metis surj_pair)
        obtain new1 where n1: "c2 = collected @ new1" "kept s1 new1 s2"
          using collectPage_kept [OF cp] by blast
        have k1: "kept s new1 s2"
          using n1(2) fr1 by (simp add: kept_def isSeen_def)
        show ?thesis
        proof (cases "PropertiesPerPage (cfg s2) \<le> int (length c2) \<or> nextURL = []")
          case True
          with \<open>int (length collected) < ?q\<close> None sp False cp "2.prems" n1(1) k1 show ?thesis
            by (auto simp: Let_def)
        next
          case stop: False
          have rec: "reached (sectionLoop fuel e sec nextURL (page + 1) c2 (Wait s2)) = (collected', s')"
            using \<open>int (length collected) < ?q\<close> None sp False cp stop "2.prems"
            by (simp add: Let_def)
          obtain new2 where n2: "collected' = c2 @ new2" "kept (Wait s2) new2 s'"
            using "2.IH" [OF \<open>int (length collected) < ?q\<close> refl sp [symmetric] refl refl None False
                cp [symmetric] stop rec] by blast
          have "kept s2 new2 s'" using n2(2) by (simp add: kept_def)
          with k1 n1(1) n2(1) show ?thesis
            using kept_trans [of s new1 s2 new2 s'] by auto
        qed
      qed
    qed
  qed
qed

lemma scrapeSection_kept:
  assumes "reached (scrapeSection fuel e s sec) = (listings, err, s')"
  shows "kept s listings s' \<and> err = None"
proof -
  obtain c s1 where r: "reached (sectionLoop fuel e sec (SectionURL sec) 1 [] s) = (c, s1)"
    by (metis surj_pair)
  then have "reached (scrapeSection fuel e s sec) = (c, None, s1)"
    by (cases "sectionLoop fuel e sec (SectionURL sec) 1 [] s") (auto simp: scrapeSection_def)
  with assms sectionLoop_kept [OF r] show ?thesis by auto
qed

lemma scrapeSection_cases:
  obtains listings s' where "scrapeSection fuel e s sec = Returned (listings, None, s')"
  | listings s' where "scrapeSection fuel e s sec = OutOfFuel (listings, None, s')"
  by (cases "sectionLoop fuel e sec (SectionURL sec) 1 [] s") (auto simp: scrapeSection_def)

lemma scrapeSections_kept:
  "reached (scrapeSections fuel e secs allListings s) = (all', err, s')
   \<Longrightarrow> \<exists>new. all' = allListings @ new \<and> kept s new s' \<and> err = None"
proof (induction secs arbitrary: allListings s)
  case Nil
  then show ?case by (auto intro: kept_none)
next
  case (Cons sec rest)
  show ?case
  proof (cases rule: scrapeSection_cases [of fuel e "Wait s" sec])
    case (1 listings s1)
    then have k1: "kept s listings s1"
      using scrapeSection_kept [of fuel e "Wait s" sec listings None s1] by (simp add: kept_def)
    let ?s2 = "logEvent (InfoSectionDone (Name sec) (int (length listings))
                         (int (length (allListings @ listings)))) s1"
    have rec: "reached (scrapeSections fuel e rest (allListings @ listings) ?s2) = (all', err, s')"
      using Cons.prems 1 by simp
    obtain new where n: "all' = (allListings @ listings) @ new" "kept ?s2 new s'" "err = None"
      using Cons.IH [OF rec] by blast
    have "kept s1 new s'" using n(2) by (simp add: kept_def)
    with k1 n show ?thesis
      using kept_trans [of s listings s1 new s'] by auto
  next
    case (2 listings s1)
    then have k1: "kept s listings s1"
      using scrapeSection_kept [of fuel e "Wait s" sec listings None s1] by (simp add: kept_def)
    with Cons.prems 2 show ?thesis by auto
  qed
qed

lemma discoverSections_frame:
  "discoverSections e s = (sections, err, s1) \<Longrightarrow> cfg s1 = cfg s \<and> seenURLs s1 = seenURLs s"
  by (auto simp: discoverSections_def Let_def split: homeLoad.splits)

lemma Scrape_kept:
  assumes "reached (Scrape fuel e s) = (listings, err, s')"
  shows "kept s listings s' \<and> err = None"
proof -
  obtain sections derr s1 where d: "discoverSections e s = (sections, derr, s1)"
    by (metis prod_cases3)
  let ?fb = "derr \<noteq> None \<or> sections = []"
  let ?secs = "if ?fb then fallbackSections else sections"
  let ?s2 = "if ?fb then logEvent WarnFallback s1 else s1"
  let ?s3 = "logEvent (InfoSections (map Name ?secs)) ?s2"
  have "Scrape fuel e s = scrapeSections fuel e ?secs [] ?s3"
    using d by (simp add: Scrape_def)
  with assms obtain new where n: "listings = [] @ new" "kept ?s3 new s'" "err = None"
    using scrapeSections_kept [of fuel e ?secs "[]" ?s3 listings err s'] by auto
  have "cfg ?s3 = cfg s \<and> seenURLs ?s3 = seenURLs s"
    using discoverSections_frame [OF d] by simp
  then have "kept s new s'" using n(2) by (simp add: kept_def isSeen_def)
  with n show ?thesis by simp
qed

subsection \<open>The quota\<close>

lemma collectPage_length:
  "collectPage e ls collected s = (collected', s')
   \<Longrightarrow> int (length collected') \<le> max (int (length collected)) (PropertiesPerPage (cfg s))"
proof (induction e ls collected s rule: collectPage.induct)
  case (1 e collected s)
  then show ?case by simp
next
  case (2 e l ls collected s)
  show ?case
  proof (cases "PropertiesPerPage (cfg s) \<le> int (length collected)")
    case True
    with "2.prems" show ?thesis by simp
  next
    case quota: False
    show ?thesis
    proof (cases "isSeen s (URL l)")
      case True
      with quota "2.prems" "2.IH"(1) show ?thesis by simp
    next
      case False
      let ?s1 = "s\<lparr>seenURLs := (seenURLs s)(URL l \<mapsto> True)\<rparr>"
      obtain l' s2 where
        en: "(if Description l = [] \<and> URL l \<noteq> [] then enrichDetail e (Wait ?s1) l else (l, ?s1)) = (l', s2)"
        by (metis surj_pair)
      then have fr: "cfg s2 = cfg s"
        using enrichDetail_frame [of e "Wait ?s1" l l' s2] by (auto split: if_splits)
      have rec: "collectPage e ls (collected @ [l']) s2 = (collected', s')"
        using quota False en "2.prems" by (simp add: Let_def)
      show ?thesis
        using "2.IH"(2) [OF quota False refl en [symmetric] rec] quota fr by simp
    qed
  qed
qed

lemma collectPage_cfg:
  "collectPage e ls collected s = (collected', s') \<Longrightarrow> cfg s' = cfg s"
  using collectPage_kept [of e ls collected s collected' s'] by (auto simp: kept_def)

lemma sectionLoop_length:
  "reached (sectionLoop fuel e sec url page collected s) = (collected', s')
   \<Longrightarrow> int (length collected') \<le> max (int (length collected)) (PropertiesPerPage (cfg s))"
proof (induction fuel e sec url page collected s rule: sectionLoop.induct)
  case (1 e sec currentURL page collected s)
  then show ?case by (auto split: if_splits)
next
  case (2 fuel e sec currentURL page collected s)
  let ?q = "PropertiesPerPage (cfg s)"
  show ?case
  proof (cases "int (length collected) < ?q")
    case False
    with "2.prems" show ?thesis by auto
  next
    case True
    let ?s0 = "logEvent (InfoPage (Name sec) page (int (length collected)) ?q) s"
    obtain listings nextURL err s1 where
      sp: "scrapePage e ?s0 currentURL (Name sec) = (listings, nextURL, err, s1)"
      by (metis prod_cases4)
    have fr1: "cfg s1 = cfg s"
      using scrapePage_frame [OF sp] by simp
    show ?thesis
    proof (cases err)
      case (Some x)
      with True sp "2.prems" show ?thesis by (auto simp: Let_def)
    next
      case None
      show ?thesis
      proof (cases "listings = []")
        case True
        with \<open>int (length collected) < ?q\<close> None sp "2.prems" show ?thesis
          by (auto simp: Let_def)
      next
        case False
        obtain c2 s2 where cp: "collectPage e listings collected s1 = (c2, s2)"
          by (metis surj_pair)
        have l2: "int (length c2) \<le> max (int (length collected)) ?q"
          using collectPage_length [OF cp] fr1 by simp
        have fr2: "cfg s2 = cfg s" using collectPage_cfg [OF cp] fr1 by simp
        show ?thesis
        proof (cases "PropertiesPerPage (cfg s2) \<le> int (length c2) \<or> nextURL = []")
          case True
          with \<open>int (length collected) < ?q\<close> None sp False cp "2.prems" l2 show ?thesis
            by (auto simp: Let_def)
        next
          case stop: False
          have rec: "reached (sectionLoop fuel e sec nextURL (page + 1) c2 (Wait s2)) = (collected', s')"
            using \<open>int (length collected) < ?q\<close> None sp False cp stop "2.prems"
            by (simp add: Let_def)
          have "int (length collected') \<le> max (int (length c2)) (PropertiesPerPage (cfg (Wait s2)))"
            using "2.IH" [OF \<open>int (length collected) < ?q\<close> refl sp [symmetric] refl refl None False
                cp [symmetric] stop rec] .
          with l2 fr2 show ?thesis by simp
        qed
      qed
    qed
  qed
qed

lemma sectionLoop_at_quota:
  "PropertiesPerPage (cfg s) \<le> int (length collected)
   \<Longrightarrow> sectionLoop fuel e sec url page collected s = Returned (collected, s)"
  by (cases fuel) auto

lemma collectPage_at_quota:
  "PropertiesPerPage (cfg s) \<le> int (length collected)
   \<Longrightarrow> collectPage e ls collected s = (collected, s)"
  by (cases ls) auto

section \<open>Sample runs\<close>

lemmas scraper_eval = Scrape_def discoverSections_def scrapeSection_def scrapePage_def
  RetryWithBackoff_def retryLoop.simps pageAttempt_def enrichDetail_def toListing_def
  Wait_def logEvent_def isSeen_def NewAirbnbScraper_def Let_def demoConfig_def demoCard_def
  asciiEqualFold_def asciiLower_def TrimSpace_def TrimLeft.simps TrimRight.simps
  spacePrefix_def spaceSuffix_def unicodeSpaces_def

lemma demo_run:
  "Scrape 1 demoEnv (NewAirbnbScraper (demoConfig 3 1)) =
   Returned
    ([\<lparr>Platform = ''Airbnb'', Title = ''Loft'', RawPrice = ''$50'',
       Location = ''Bangkok'', RawRating = ''4.82'', URL = ''/rooms/1'',
       Description = [], ScrapedAt = 1\<rparr>,
      \<lparr>Platform = ''Airbnb'', Title = ''Ryokan'', RawPrice = ''$50'',
       Location = ''Tokyo'', RawRating = ''4.82'', URL = ''/rooms/3'',
       Description = ''Quiet'', ScrapedAt = 3\<rparr>],
     None,
     \<lparr>cfg = demoConfig 3 1,
      seenURLs = [''/rooms/1'' \<mapsto> True, ''/rooms/3'' \<mapsto> True], requests = 5,
      log = [InfoSections [''Bangkok'', ''Tokyo''], RateLimiterWait,
         InfoPage ''Bangkok'' 1 0 1, RateLimiterWait,
         InfoSectionDone ''Bangkok'' 1 1, RateLimiterWait,
         InfoPage ''Tokyo'' 1 0 1, RateLimiterWait,
         InfoSectionDone ''Tokyo'' 1 2]\<rparr>)"
  by (simp add: scraper_eval demoEnv_def)

lemma noLink_run:
  "Scrape 1 noLinkEnv (NewAirbnbScraper (demoConfig 3 5)) =
   Returned
    ([\<lparr>Platform = ''Airbnb'', Title = ''Villa'', RawPrice = ''$50'',
       Location = ''Bali'', RawRating = ''4.82'', URL = [],
       Description = [], ScrapedAt = 1\<rparr>,
      \<lparr>Platform = ''Airbnb'', Title = ''Loft'', RawPrice = ''$50'',
       Location = ''Bali'', RawRating = ''4.82'', URL = ''/rooms/1'',
       Description = [], ScrapedAt = 1\<rparr>],
     None,
     \<lparr>cfg = demoConfig 3 5,
      seenURLs = [[] \<mapsto> True, ''/rooms/1'' \<mapsto> True], requests = 3,
      log = [InfoSections [''Bali''], RateLimiterWait, InfoPage ''Bali'' 1 0 5,
         RateLimiterWait, WarnEnrichFailed ''Loft'' (External ''timeout''),
         InfoSectionDone ''Bali'' 2 2]\<rparr>)"
  by (simp add: scraper_eval noLinkEnv_def)

lemma down_section:
  "scrapeSection 1 downEnv (NewAirbnbScraper (demoConfig 2 5))
     \<lparr>Name = ''Bangkok'', SectionURL = ''/s/bkk''\<rparr> =
   Returned
    ([], None,
     \<lparr>cfg = demoConfig 2 5, seenURLs = Map.empty, requests = 2,
      log = [InfoPage ''Bangkok'' 1 0 5,
         ErrorAttemptFailed 1 (NavigateFailed (External ''net::ERR_INTERNET_DISCONNECTED'')),
         WarnRetrying 2 2 1000000000, Sleep 1000000000,
         ErrorAttemptFailed 2 (NavigateFailed (External ''net::ERR_INTERNET_DISCONNECTED'')),
         ErrorPage 1
          (AllAttemptsFailed 2
            (Some (NavigateFailed (External ''net::ERR_INTERNET_DISCONNECTED''))))]\<rparr>)"
  by (simp add: scraper_eval downEnv_def backoff_def wrap64_def Second_def)

lemma down_run:
  "Scrape 1 downEnv (NewAirbnbScraper (demoConfig 1 5)) =
   Returned
    ([], None,
     \<lparr>cfg = demoConfig 1 5, seenURLs = Map.empty, requests = 11,
      log = [WarnFallback,
             InfoSections [''Bangkok'', ''Kuala Lumpur'', ''Tokyo'', ''Bali'', ''Seoul'',
               ''Singapore'', ''Paris'', ''New York'', ''London'', ''Dubai'']]
            @ concat (map (\<lambda>n. [RateLimiterWait, InfoPage n 1 0 5,
                  ErrorAttemptFailed 1 (NavigateFailed (External ''net::ERR_INTERNET_DISCONNECTED'')),
                  ErrorPage 1 (AllAttemptsFailed 1
                     (Some (NavigateFailed (External ''net::ERR_INTERNET_DISCONNECTED'')))),
                  InfoSectionDone n 0 0])
                [''Bangkok'', ''Kuala Lumpur'', ''Tokyo'', ''Bali'', ''Seoul'',
                 ''Singapore'', ''Paris'', ''New York'', ''London'', ''Dubai''])\<rparr>)"
  by (simp add: scraper_eval downEnv_def fallbackSections_def)

section \<open>The claims about the crawl\<close>

text \<open>
  Claim C1.  For every crawl of a section with a quota \<open>q \<ge> 0\<close>, the number of
  collected listings is at most \<open>q\<close> at every step: in the state the pagination loop
  has reached after any number of pages (any fuel, whether the loop has returned or
  not), from every state with at most \<open>q\<close> collected, and after the loop over any list of
  candidates of a page.  The loops end the instant the quota is reached: from a state
  with \<open>q\<close> collected listings the pagination loop returns at once, without a
  request or any other change of state, and the loop over the candidates of a page
  keeps none of them and leaves the state as it is.
\<close>

theorem C1_quota:
  "0 \<le> PropertiesPerPage (cfg s) \<longrightarrow>
     int (length (fst (reached (scrapeSection fuel e s sec)))) \<le> PropertiesPerPage (cfg s)
     \<and> (int (length collected) \<le> PropertiesPerPage (cfg s) \<longrightarrow>
          int (length (fst (reached (sectionLoop fuel e sec url page collected s))))
            \<le> PropertiesPerPage (cfg s)
          \<and> int (length (fst (collectPage e ls collected s))) \<le> PropertiesPerPage (cfg s))
     \<and> (int (length collected) = PropertiesPerPage (cfg s) \<longrightarrow>
          sectionLoop fuel e sec url page collected s = Returned (collected, s)
          \<and> collectPage e ls collected s = (collected, s))"
proof (intro impI conjI)
  assume q: "0 \<le> PropertiesPerPage (cfg s)"
  obtain c1 err s1 where r: "reached (scrapeSection fuel e s sec) = (c1, err, s1)"
    by (metis prod_cases3)
  have "reached (sectionLoop fuel e sec (SectionURL sec) 1 [] s) = (c1, s1)"
    using r by (cases "sectionLoop fuel e sec (SectionURL sec) 1 [] s") (auto simp: scrapeSection_def)
  from sectionLoop_length [OF this] q r
  show "int (length (fst (reached (scrapeSection fuel e s sec)))) \<le> PropertiesPerPage (cfg s)"
    by simp
next
  assume le: "int (length collected) \<le> PropertiesPerPage (cfg s)"
  obtain c2 s2 where r: "reached (sectionLoop fuel e sec url page collected s) = (c2, s2)"
    by (metis surj_pair)
  from sectionLoop_length [OF r] le r
  show "int (length (fst (reached (sectionLoop fuel e sec url page collected s))))
            \<le> PropertiesPerPage (cfg s)"
    by simp
  obtain c3 s3 where r3: "collectPage e ls collected s = (c3, s3)"
    by (metis surj_pair)
  from collectPage_length [OF r3] le r3
  show "int (length (fst (collectPage e ls collected s))) \<le> PropertiesPerPage (cfg s)"
    by simp
next
  assume eq: "int (length collected) = PropertiesPerPage (cfg s)"
  then show "sectionLoop fuel e sec url page collected s = Returned (collected, s)"
    by (intro sectionLoop_at_quota) simp
  from eq show "collectPage e ls collected s = (collected, s)"
    by (intro collectPage_at_quota) simp
qed

theorem C1_quota_witness:
  "0 \<le> PropertiesPerPage (cfg (NewAirbnbScraper (demoConfig 3 1)))
   \<and> map Title (fst (reached (scrapeSection 1 demoEnv (NewAirbnbScraper (demoConfig 3 1))
         \<lparr>Name = ''Bangkok'', SectionURL = ''/s/bkk''\<rparr>))) = [''Loft'']
   \<and> int (length (fst (reached (scrapeSection 1 demoEnv (NewAirbnbScraper (demoConfig 3 1))
         \<lparr>Name = ''Bangkok'', SectionURL = ''/s/bkk''\<rparr>))))
       \<le> PropertiesPerPage (cfg (NewAirbnbScraper (demoConfig 3 1)))
   \<and> int (length [demoListing]) = PropertiesPerPage (cfg (NewAirbnbScraper (demoConfig 3 1)))
   \<and> sectionLoop 1 demoEnv \<lparr>Name = ''Bangkok'', SectionURL = ''/s/bkk''\<rparr> ''/s/bkk'' 1
        [demoListing] (NewAirbnbScraper (demoConfig 3 1))
       = Returned ([demoListing], NewAirbnbScraper (demoConfig 3 1))
   \<and> collectPage demoEnv [demoListing\<lparr>URL := ''/rooms/2''\<rparr>] [demoListing]
        (NewAirbnbScraper (demoConfig 3 1))
       = ([demoListing], NewAirbnbScraper (demoConfig 3 1))"
proof -
  have q: "PropertiesPerPage (cfg (NewAirbnbScraper (demoConfig 3 1))) = 1"
    by (simp add: NewAirbnbScraper_def demoConfig_def)
  have t: "map Title (fst (reached (scrapeSection 1 demoEnv (NewAirbnbScraper (demoConfig 3 1))
         \<lparr>Name = ''Bangkok'', SectionURL = ''/s/bkk''\<rparr>))) = [''Loft'']"
    by (simp add: scraper_eval demoEnv_def)
  show ?thesis
    using C1_quota [of "NewAirbnbScraper (demoConfig 3 1)" 1 demoEnv
        "\<lparr>Name = ''Bangkok'', SectionURL = ''/s/bkk''\<rparr>" "[demoListing]" "''/s/bkk''" 1
        "[demoListing\<lparr>URL := ''/rooms/2''\<rparr>]"] q t
    by simp
qed

lemma Add_result: "fst (Add t k) = (k \<notin> dom (seen t))"
  by (auto simp: Add_def split: option.splits)

lemma Add_dom: "dom (seen (snd (Add t k))) = insert k (dom (seen t))"
  by (auto simp: Add_def split: option.splits)

lemma addAll_Cons:
  "Add t k = (b, t1) \<Longrightarrow> addAll t1 ks = (bs, t2) \<Longrightarrow> addAll t (k # ks) = (b # bs, t2)"
  by simp

lemma addAll_dom: "dom (seen (snd (addAll t keys))) = dom (seen t) \<union> set keys"
proof (induction keys arbitrary: t)
  case Nil
  show ?case by simp
next
  case (Cons k ks)
  obtain b t1 where a: "Add t k = (b, t1)" by (metis surj_pair)
  obtain bs t2 where r: "addAll t1 ks = (bs, t2)" by (metis surj_pair)
  have d1: "dom (seen t1) = insert k (dom (seen t))" using Add_dom [of t k] a by simp
  have d2: "dom (seen t2) = dom (seen t1) \<union> set ks" using Cons [of t1] r by simp
  have "snd (addAll t (k # ks)) = t2" using addAll_Cons [OF a r] by simp
  then show ?case using d1 d2 by auto
qed

lemma addAll_nth:
  "i < length keys \<Longrightarrow>
   fst (addAll t keys) ! i = (keys ! i \<notin> dom (seen t) \<union> set (take i keys))"
proof (induction keys arbitrary: t i)
  case Nil
  then show ?case by simp
next
  case (Cons k ks)
  obtain b t1 where a: "Add t k = (b, t1)" by (metis surj_pair)
  obtain bs t2 where r: "addAll t1 ks = (bs, t2)" by (metis surj_pair)
  have b: "b = (k \<notin> dom (seen t))" using Add_result [of t k] a by simp
  have d: "dom (seen t1) = insert k (dom (seen t))" using Add_dom [of t k] a by simp
  have f: "fst (addAll t (k # ks)) = b # bs" using addAll_Cons [OF a r] by simp
  show ?case
  proof (cases i)
    case 0
    with b f show ?thesis by simp
  next
    case (Suc j)
    then have "j < length ks" using Cons.prems by simp
    from Cons.IH [OF this, of t1] have "bs ! j = (ks ! j \<notin> dom (seen t1) \<union> set (take j ks))"
      using r by simp
    with d f Suc show ?thesis by auto
  qed
qed

lemma distinct_nth_neq:
  "distinct (map f xs) \<Longrightarrow> a < b \<Longrightarrow> b < length xs \<Longrightarrow> f (xs ! a) \<noteq> f (xs ! b)"
proof -
  assume d: "distinct (map f xs)" and ab: "a < b" and b: "b < length xs"
  have "(map f xs ! a = map f xs ! b) = (a = b)"
    using d ab b by (intro nth_eq_iff_index_eq) simp_all
  then show ?thesis using ab b by simp
qed

lemma distinct_filter_le1:
  "distinct (map f xs) \<Longrightarrow> length (filter (\<lambda>x. f x = u) xs) \<le> 1"
proof (induction xs)
  case Nil
  show ?case by simp
next
  case (Cons x xs)
  show ?case
  proof (cases "f x = u")
    case True
    have "f x \<notin> f ` set xs" using Cons.prems by simp
    then have "\<forall>y\<in>set xs. f y \<noteq> u" using True by (metis imageI)
    then have "filter (\<lambda>x. f x = u) xs = []"
      by (simp add: filter_empty_conv)
    with True show ?thesis by simp
  next
    case False
    with Cons show ?thesis by simp
  qed
qed

text \<open>
  Claim C2.  In every sequence of calls of the deduplicator, from any state of it,
  \<open>Add key\<close> returns true exactly when the key was not in the tracker before and was not
  passed to an earlier call of the sequence, and the keys recorded afterwards are those
  recorded before and all keys of the sequence (none is ever removed); a new tracker has
  recorded nothing.  The crawl's own filter has the same effect: in every run, in the
  listings kept so far (whether the run has returned or not), a listing with a non-empty
  URL shares it with no other listing.
\<close>

theorem C2_deduplicator:
  "(i < length keys \<longrightarrow>
      fst (addAll t keys) ! i = (keys ! i \<notin> dom (seen t) \<union> set (take i keys)))
   \<and> dom (seen (snd (addAll t keys))) = dom (seen t) \<union> set keys
   \<and> dom (seen NewURLTracker) = {}
   \<and> (reached (Scrape fuel e s) = (listings, err, s') \<and> a < b \<and> b < length listings
        \<and> URL (listings ! a) \<noteq> []
      \<longrightarrow> URL (listings ! a) \<noteq> URL (listings ! b))"
proof (intro conjI impI)
  assume "i < length keys"
  then show "fst (addAll t keys) ! i = (keys ! i \<notin> dom (seen t) \<union> set (take i keys))"
    by (rule addAll_nth)
next
  show "dom (seen (snd (addAll t keys))) = dom (seen t) \<union> set keys"
    by (rule addAll_dom)
next
  show "dom (seen NewURLTracker) = {}"
    by (simp add: NewURLTracker_def)
next
  assume h: "reached (Scrape fuel e s) = (listings, err, s') \<and> a < b \<and> b < length listings
        \<and> URL (listings ! a) \<noteq> []"
  then have "distinct (map URL listings)"
    using Scrape_kept [of fuel e s listings err s'] by (simp add: kept_def)
  with h show "URL (listings ! a) \<noteq> URL (listings ! b)"
    by (intro distinct_nth_neq) auto
qed

theorem C2_deduplicator_witness:
  "(2::nat) < length [''/rooms/1'', ''/rooms/2'', ''/rooms/1'']
   \<and> fst (addAll NewURLTracker [''/rooms/1'', ''/rooms/2'', ''/rooms/1'']) = [True, True, False]
   \<and> dom (seen (snd (addAll NewURLTracker [''/rooms/1'', ''/rooms/2'', ''/rooms/1''])))
       = {''/rooms/1'', ''/rooms/2''}
   \<and> map URL (fst (reached (Scrape 1 demoEnv (NewAirbnbScraper (demoConfig 3 1)))))
       = [''/rooms/1'', ''/rooms/3'']
   \<and> (0::nat) < 1
   \<and> 1 < length (fst (reached (Scrape 1 demoEnv (NewAirbnbScraper (demoConfig 3 1)))))
   \<and> URL (fst (reached (Scrape 1 demoEnv (NewAirbnbScraper (demoConfig 3 1)))) ! 0) \<noteq> []
   \<and> URL (fst (reached (Scrape 1 demoEnv (NewAirbnbScraper (demoConfig 3 1)))) ! 0)
       \<noteq> URL (fst (reached (Scrape 1 demoEnv (NewAirbnbScraper (demoConfig 3 1)))) ! 1)"
proof -
  let ?run = "reached (Scrape 1 demoEnv (NewAirbnbScraper (demoConfig 3 1)))"
  have r: "fst (addAll NewURLTracker [''/rooms/1'', ''/rooms/2'', ''/rooms/1'']) = [True, True, False]"
    by (simp add: NewURLTracker_def Add_def)
  have d: "dom (seen (snd (addAll NewURLTracker [''/rooms/1'', ''/rooms/2'', ''/rooms/1''])))
       = {''/rooms/1'', ''/rooms/2''}"
    by (auto simp: NewURLTracker_def Add_def)
  have l: "map URL (fst ?run) = [''/rooms/1'', ''/rooms/3'']"
    by (subst demo_run) simp
  have len: "1 < length (fst ?run)"
    by (subst demo_run) simp
  have u0: "URL (fst ?run ! 0) \<noteq> []"
    by (subst demo_run) simp
  obtain L E S where run: "?run = (L, E, S)"
    by (metis prod_cases3)
  have lenL: "1 < length L" using len run by simp
  have u0L: "URL (L ! 0) \<noteq> []" using u0 run by simp
  have "URL (L ! 0) \<noteq> URL (L ! 1)"
  proof (rule C2_deduplicator [of 2 "[''/rooms/1'', ''/rooms/2'', ''/rooms/1'']" NewURLTracker
        1 demoEnv "NewAirbnbScraper (demoConfig 3 1)" L E S 0 1,
        THEN conjunct2, THEN conjunct2, THEN conjunct2, THEN mp])
    show "?run = (L, E, S) \<and> (0::nat) < 1 \<and> 1 < length L \<and> URL (L ! 0) \<noteq> []"
      using run lenL u0L by simp
  qed
  then have neq: "URL (fst ?run ! 0) \<noteq> URL (fst ?run ! 1)"
    using run by simp
  show ?thesis
    by (intro conjI r d l len u0 neq) simp_all
qed

text \<open>
  Claim C10.  In every run, among the listings kept so far at most one has an empty URL.
  The first listing with an empty URL that the filter examines below the quota is kept
  and puts the empty string into the map of seen URLs; from then on a listing with an
  empty URL is dropped, whatever its title and location, on any page of any section:
  the map is part of the scraper's state, which the whole run shares.
\<close>

theorem C10_empty_url:
  "(reached (Scrape fuel e s) = (listings, err, s')
      \<longrightarrow> length (filter (\<lambda>l. URL l = []) listings) \<le> 1
        \<and> (filter (\<lambda>l. URL l = []) listings \<noteq> [] \<longrightarrow> isSeen s' [] \<and> \<not> isSeen s []))
   \<and> (URL l = [] \<and> isSeen s [] \<longrightarrow> collectPage e (l # ls) collected s = collectPage e ls collected s)
   \<and> (URL l = [] \<and> \<not> isSeen s [] \<and> int (length collected) < PropertiesPerPage (cfg s)
      \<longrightarrow> collectPage e (l # ls) collected s
          = collectPage e ls (collected @ [l]) (s\<lparr>seenURLs := (seenURLs s)([] \<mapsto> True)\<rparr>)
        \<and> isSeen (s\<lparr>seenURLs := (seenURLs s)([] \<mapsto> True)\<rparr>) [])"
proof (intro conjI impI)
  assume r: "reached (Scrape fuel e s) = (listings, err, s')"
  then have k: "kept s listings s'"
    using Scrape_kept by blast
  then show "length (filter (\<lambda>l. URL l = []) listings) \<le> 1"
    by (intro distinct_filter_le1) (simp add: kept_def)
  assume "filter (\<lambda>l. URL l = []) listings \<noteq> []"
  then obtain l where l: "l \<in> set listings" "URL l = []"
    by (auto simp: filter_empty_conv)
  with k show "isSeen s' []" by (force simp: kept_def)
  from k l show "\<not> isSeen s []" by (force simp: kept_def)
next
  assume "URL l = [] \<and> isSeen s []"
  then show "collectPage e (l # ls) collected s = collectPage e ls collected s"
    by (simp add: collectPage_at_quota)
next
  assume "URL l = [] \<and> \<not> isSeen s [] \<and> int (length collected) < PropertiesPerPage (cfg s)"
  then show "collectPage e (l # ls) collected s
          = collectPage e ls (collected @ [l]) (s\<lparr>seenURLs := (seenURLs s)([] \<mapsto> True)\<rparr>)"
    by simp
next
  show "isSeen (s\<lparr>seenURLs := (seenURLs s)([] \<mapsto> True)\<rparr>) []"
    by (simp add: isSeen_def)
qed

theorem C10_empty_url_witness:
  "map (\<lambda>l. (Title l, URL l)) (fst (reached (Scrape 1 noLinkEnv (NewAirbnbScraper (demoConfig 3 5)))))
     = [(''Villa'', []), (''Loft'', ''/rooms/1'')]
   \<and> length (filter (\<lambda>l. URL l = [])
         (fst (reached (Scrape 1 noLinkEnv (NewAirbnbScraper (demoConfig 3 5)))))) \<le> 1
   \<and> filter (\<lambda>l. URL l = [])
         (fst (reached (Scrape 1 noLinkEnv (NewAirbnbScraper (demoConfig 3 5))))) \<noteq> []
   \<and> isSeen (snd (snd (reached (Scrape 1 noLinkEnv (NewAirbnbScraper (demoConfig 3 5)))))) []
   \<and> URL (demoListing\<lparr>Title := ''Hut'', URL := []\<rparr>) = []
   \<and> isSeen (NewAirbnbScraper (demoConfig 3 5)\<lparr>seenURLs := [[] \<mapsto> True]\<rparr>) []
   \<and> collectPage noLinkEnv [demoListing\<lparr>Title := ''Hut'', URL := []\<rparr>] []
         (NewAirbnbScraper (demoConfig 3 5)\<lparr>seenURLs := [[] \<mapsto> True]\<rparr>)
       = ([], NewAirbnbScraper (demoConfig 3 5)\<lparr>seenURLs := [[] \<mapsto> True]\<rparr>)
   \<and> \<not> isSeen (NewAirbnbScraper (demoConfig 3 5)) []
   \<and> int (length ([] :: RawListing list)) < PropertiesPerPage (cfg (NewAirbnbScraper (demoConfig 3 5)))
   \<and> collectPage noLinkEnv [demoListing\<lparr>Title := ''Villa'', URL := []\<rparr>] []
         (NewAirbnbScraper (demoConfig 3 5))
       = ([demoListing\<lparr>Title := ''Villa'', URL := []\<rparr>],
          NewAirbnbScraper (demoConfig 3 5)\<lparr>seenURLs := [[] \<mapsto> True]\<rparr>)"
proof -
  let ?run = "reached (Scrape 1 noLinkEnv (NewAirbnbScraper (demoConfig 3 5)))"
  let ?s0 = "NewAirbnbScraper (demoConfig 3 5)"
  let ?s1 = "NewAirbnbScraper (demoConfig 3 5)\<lparr>seenURLs := [[] \<mapsto> True]\<rparr>"
  let ?hut = "demoListing\<lparr>Title := ''Hut'', URL := []\<rparr>"
  let ?villa = "demoListing\<lparr>Title := ''Villa'', URL := []\<rparr>"
  have m: "map (\<lambda>l. (Title l, URL l)) (fst ?run) = [(''Villa'', []), (''Loft'', ''/rooms/1'')]"
    by (subst noLink_run) simp
  have ne: "filter (\<lambda>l. URL l = []) (fst ?run) \<noteq> []"
    by (subst noLink_run) simp
  obtain L E S where run: "?run = (L, E, S)"
    by (metis prod_cases3)
  have neL: "filter (\<lambda>l. URL l = []) L \<noteq> []" using ne run by simp
  have a: "length (filter (\<lambda>l. URL l = []) L) \<le> 1 \<and> isSeen S []"
    using C10_empty_url [of 1 noLinkEnv ?s0 L E S ?hut ls collected] run neL by blast
  have h: "URL ?hut = []" "isSeen ?s1 []" "\<not> isSeen ?s0 []"
    "int (length ([] :: RawListing list)) < PropertiesPerPage (cfg ?s0)"
    by (simp_all add: demoListing_def isSeen_def NewAirbnbScraper_def demoConfig_def)
  have b: "collectPage noLinkEnv [?hut] [] ?s1 = collectPage noLinkEnv [] [] ?s1"
    using C10_empty_url [of 1 noLinkEnv ?s1 L E S ?hut "[]" "[]"] h by blast
  have c: "collectPage noLinkEnv [?villa] [] ?s0
           = collectPage noLinkEnv [] ([] @ [?villa]) (?s0\<lparr>seenURLs := (seenURLs ?s0)([] \<mapsto> True)\<rparr>)"
    using C10_empty_url [of 1 noLinkEnv ?s0 L E S ?villa "[]" "[]"] h
    by (simp add: demoListing_def)
  have s1: "?s0\<lparr>seenURLs := (seenURLs ?s0)([] \<mapsto> True)\<rparr> = ?s1"
    by (simp add: NewAirbnbScraper_def)
  have a': "length (filter (\<lambda>l. URL l = []) (fst ?run)) \<le> 1" "isSeen (snd (snd ?run)) []"
    using a run by simp_all
  show ?thesis
    using m ne a' h b c s1 by simp
qed

lemma enrichDetail_cases:
  "enrichDetail e s l =
     (if URL l = [] then (l, s)
      else case detailPage e (requests s) (URL l) of
             Inl err \<Rightarrow> (l, logEvent (WarnEnrichFailed (Title l) err) (s\<lparr>requests := requests s + 1\<rparr>))
           | Inr desc \<Rightarrow>
               (if desc \<noteq> [] \<and> \<not> EqualFold e (TrimSpace desc) (TrimSpace (Title l))
                then l\<lparr>Description := desc\<rparr> else l, s\<lparr>requests := requests s + 1\<rparr>))"
  by (simp add: enrichDetail_def Let_def split: sum.splits)

text \<open>
  Claim C9.  For every listing and every answer of the detail page, enrichment changes
  the listing's description only if the listing has a URL, the page gave a candidate, the
  candidate is not empty and, after trimming, is not equal to the trimmed title under
  case folding; the description then is the candidate, and under these conditions it is
  always assigned.  If the candidate equals the title under case folding after trimming,
  the listing is left as it was, so that a description that was empty stays empty; so
  it is when navigation or extraction fails.  No other field is ever changed.
\<close>

theorem C9_enrichDetail:
  "(Description (fst (enrichDetail e s l)) \<noteq> Description l
      \<longrightarrow> URL l \<noteq> []
        \<and> detailPage e (requests s) (URL l) = Inr (Description (fst (enrichDetail e s l)))
        \<and> Description (fst (enrichDetail e s l)) \<noteq> []
        \<and> \<not> EqualFold e (TrimSpace (Description (fst (enrichDetail e s l)))) (TrimSpace (Title l)))
   \<and> (URL l \<noteq> [] \<and> detailPage e (requests s) (URL l) = Inr desc \<and> desc \<noteq> []
        \<and> \<not> EqualFold e (TrimSpace desc) (TrimSpace (Title l))
      \<longrightarrow> fst (enrichDetail e s l) = l\<lparr>Description := desc\<rparr>)
   \<and> (detailPage e (requests s) (URL l) = Inr desc
        \<and> EqualFold e (TrimSpace desc) (TrimSpace (Title l))
      \<longrightarrow> fst (enrichDetail e s l) = l)
   \<and> (detailPage e (requests s) (URL l) = Inl err \<longrightarrow> fst (enrichDetail e s l) = l)
   \<and> fst (enrichDetail e s l) = l\<lparr>Description := Description (fst (enrichDetail e s l))\<rparr>"
  by (auto simp: enrichDetail_cases split: sum.splits)

theorem C9_enrichDetail_witness:
  "URL (demoListing\<lparr>URL := ''/rooms/2''\<rparr>) \<noteq> []
   \<and> detailPage demoEnv (requests (NewAirbnbScraper (demoConfig 3 1))) ''/rooms/2'' = Inr ''Quiet''
   \<and> \<not> EqualFold demoEnv (TrimSpace ''Quiet'') (TrimSpace (Title demoListing))
   \<and> fst (enrichDetail demoEnv (NewAirbnbScraper (demoConfig 3 1)) (demoListing\<lparr>URL := ''/rooms/2''\<rparr>))
       = demoListing\<lparr>URL := ''/rooms/2'', Description := ''Quiet''\<rparr>
   \<and> Description (fst (enrichDetail demoEnv (NewAirbnbScraper (demoConfig 3 1))
         (demoListing\<lparr>URL := ''/rooms/2''\<rparr>))) \<noteq> Description (demoListing\<lparr>URL := ''/rooms/2''\<rparr>)
   \<and> detailPage demoEnv (requests (NewAirbnbScraper (demoConfig 3 1))) (URL demoListing) = Inr '' LOFT ''
   \<and> EqualFold demoEnv (TrimSpace '' LOFT '') (TrimSpace (Title demoListing))
   \<and> fst (enrichDetail demoEnv (NewAirbnbScraper (demoConfig 3 1)) demoListing) = demoListing
   \<and> Description (fst (enrichDetail demoEnv (NewAirbnbScraper (demoConfig 3 1)) demoListing)) = []
   \<and> detailPage noLinkEnv (requests (NewAirbnbScraper (demoConfig 3 1))) (URL demoListing)
       = Inl (External ''timeout'')
   \<and> fst (enrichDetail noLinkEnv (NewAirbnbScraper (demoConfig 3 1)) demoListing) = demoListing"
proof -
  let ?s = "NewAirbnbScraper (demoConfig 3 1)"
  let ?l2 = "demoListing\<lparr>URL := ''/rooms/2''\<rparr>"
  have h: "URL ?l2 \<noteq> []"
    "detailPage demoEnv (requests ?s) ''/rooms/2'' = Inr ''Quiet''"
    "\<not> EqualFold demoEnv (TrimSpace ''Quiet'') (TrimSpace (Title demoListing))"
    "detailPage demoEnv (requests ?s) (URL demoListing) = Inr '' LOFT ''"
    "EqualFold demoEnv (TrimSpace '' LOFT '') (TrimSpace (Title demoListing))"
    "detailPage noLinkEnv (requests ?s) (URL demoListing) = Inl (External ''timeout'')"
    by (simp_all add: demoListing_def demoEnv_def noLinkEnv_def asciiEqualFold_def asciiLower_def
        TrimSpace_def TrimLeft.simps TrimRight.simps spacePrefix_def spaceSuffix_def
        unicodeSpaces_def)
  have u: "URL ?l2 = ''/rooms/2''" "Title ?l2 = Title demoListing" "Description demoListing = []"
    "Description ?l2 = []"
    by (simp_all add: demoListing_def)
  have a: "fst (enrichDetail demoEnv ?s ?l2) = ?l2\<lparr>Description := ''Quiet''\<rparr>"
    by (rule C9_enrichDetail [of demoEnv ?s ?l2 "''Quiet''" "External []",
          THEN conjunct2, THEN conjunct1, THEN mp])
      (simp add: h u)
  have b: "fst (enrichDetail demoEnv ?s demoListing) = demoListing"
    by (rule C9_enrichDetail [of demoEnv ?s demoListing "'' LOFT ''" "External []",
          THEN conjunct2, THEN conjunct2, THEN conjunct1, THEN mp])
      (simp add: h)
  have c: "fst (enrichDetail noLinkEnv ?s demoListing) = demoListing"
    by (rule C9_enrichDetail [of noLinkEnv ?s demoListing "[]" "External ''timeout''",
          THEN conjunct2, THEN conjunct2, THEN conjunct2, THEN conjunct1, THEN mp])
      (simp add: h)
  show ?thesis
    by (intro conjI) (simp_all add: h u a b c)
qed


lemma down_page:
  "scrapePage downEnv
     (logEvent (InfoPage ''Bangkok'' 1 0 5) (Wait (NewAirbnbScraper (demoConfig 2 5))))
     ''/s/bkk'' ''Bangkok''
   = ([], [],
      Some (AllAttemptsFailed 2 (Some (NavigateFailed (External ''net::ERR_INTERNET_DISCONNECTED'')))),
      \<lparr>cfg = demoConfig 2 5, seenURLs = Map.empty, requests = 2,
       log = [RateLimiterWait, InfoPage ''Bangkok'' 1 0 5,
         ErrorAttemptFailed 1 (NavigateFailed (External ''net::ERR_INTERNET_DISCONNECTED'')),
         WarnRetrying 2 2 1000000000, Sleep 1000000000,
         ErrorAttemptFailed 2 (NavigateFailed (External ''net::ERR_INTERNET_DISCONNECTED''))]\<rparr>)"
  by (simp add: scraper_eval downEnv_def backoff_def wrap64_def Second_def)

lemma down_section_after_wait:
  "scrapeSection (Suc 0) downEnv (Wait (NewAirbnbScraper (demoConfig 2 5)))
     \<lparr>Name = ''Bangkok'', SectionURL = ''/s/bkk''\<rparr> =
   Returned
    ([], None,
     \<lparr>cfg = demoConfig 2 5, seenURLs = Map.empty, requests = 2,
      log = [RateLimiterWait, InfoPage ''Bangkok'' 1 0 5,
         ErrorAttemptFailed 1 (NavigateFailed (External ''net::ERR_INTERNET_DISCONNECTED'')),
         WarnRetrying 2 2 1000000000, Sleep 1000000000,
         ErrorAttemptFailed 2 (NavigateFailed (External ''net::ERR_INTERNET_DISCONNECTED'')),
         ErrorPage 1
          (AllAttemptsFailed 2
            (Some (NavigateFailed (External ''net::ERR_INTERNET_DISCONNECTED''))))]\<rparr>)"
  by (simp add: scraper_eval downEnv_def backoff_def wrap64_def Second_def)

lemma scrapeSection_no_error: "fst (snd (reached (scrapeSection fuel e s sec))) = None"
  by (cases rule: scrapeSection_cases [of fuel e s sec]) simp_all

lemma Scrape_no_error: "fst (snd (reached (Scrape fuel e s))) = None"
  using Scrape_kept [of fuel e s "fst (reached (Scrape fuel e s))"
      "fst (snd (reached (Scrape fuel e s)))" "snd (snd (reached (Scrape fuel e s)))"]
  by simp

text \<open>
  Claim C7, as amended.  When the fetch of a section's page exhausts its retries, the
  pagination loop of the section stops: the error is logged, the listings collected on
  the section's earlier pages are returned, and the map of seen URLs is as it was before
  the fetch.  The error is not reported to the caller: \<open>scrapeSection\<close> always returns
  a \<open>nil\<close> error.  Whatever a section returns, the run appends its listings and goes on
  with the remaining sections, and \<open>Scrape\<close> itself always returns a \<open>nil\<close> error: the
  failure of a section is never fatal to the run.
\<close>

theorem C7_section_failure:
  "(int (length collected) < PropertiesPerPage (cfg s)
      \<and> scrapePage e (logEvent (InfoPage (Name sec) page (int (length collected))
                                  (PropertiesPerPage (cfg s))) s) url (Name sec)
          = (ls, nx, Some err, s1)
     \<longrightarrow> sectionLoop (Suc fuel) e sec url page collected s
           = Returned (collected, logEvent (ErrorPage page err) s1)
         \<and> seenURLs s1 = seenURLs s)
   \<and> fst (snd (reached (scrapeSection fuel e s sec))) = None
   \<and> (scrapeSection fuel e (Wait s) sec = Returned (listings, None, s')
     \<longrightarrow> scrapeSections fuel e (sec # rest) allListings s
           = scrapeSections fuel e rest (allListings @ listings)
               (logEvent (InfoSectionDone (Name sec) (int (length listings))
                            (int (length (allListings @ listings)))) s'))
   \<and> fst (snd (reached (Scrape fuel e s))) = None"
proof (intro conjI impI)
  assume a: "int (length collected) < PropertiesPerPage (cfg s)
      \<and> scrapePage e (logEvent (InfoPage (Name sec) page (int (length collected))
                                  (PropertiesPerPage (cfg s))) s) url (Name sec)
          = (ls, nx, Some err, s1)"
  then show "sectionLoop (Suc fuel) e sec url page collected s
           = Returned (collected, logEvent (ErrorPage page err) s1)"
    by (simp add: Let_def)
  from a show "seenURLs s1 = seenURLs s"
    using scrapePage_frame [of e _ url "Name sec" ls nx "Some err" s1] by auto
next
  show "fst (snd (reached (scrapeSection fuel e s sec))) = None"
    by (rule scrapeSection_no_error)
next
  assume "scrapeSection fuel e (Wait s) sec = Returned (listings, None, s')"
  then show "scrapeSections fuel e (sec # rest) allListings s
           = scrapeSections fuel e rest (allListings @ listings)
               (logEvent (InfoSectionDone (Name sec) (int (length listings))
                            (int (length (allListings @ listings)))) s')"
    by simp
next
  show "fst (snd (reached (Scrape fuel e s))) = None"
    by (rule Scrape_no_error)
qed

text \<open>
  Claim C6, as amended.  The two copies of \<open>Scrape\<close> treat a failed discovery in
  opposite ways, and neither tells a navigation failure from an empty result.  In the
  copy that has the static list (the second, \<open>Scrape\<close>): if section discovery yields no
  section or fails, whether in the extraction script or with a hard navigation failure
  while loading the entry page (for which \<open>discoverSections\<close> returns an error), the run
  falls back to the static list of seed sections and goes on; no failure of discovery
  is fatal there, and that \<open>Scrape\<close> always returns a \<open>nil\<close> error.  In the copy without
  a static list (the first, \<open>Scrape_v1\<close>): a failure of discovery, the navigation failure
  included, is fatal to the run, and so is a discovery that yields no section; the run
  returns an error and no listing, and there is no fallback.
\<close>

theorem C6_discovery_fallback:
  "(discoverSections e s = (sections, derr, s1) \<and> (derr \<noteq> None \<or> sections = [])
     \<longrightarrow> Scrape fuel e s
           = scrapeSections fuel e fallbackSections []
               (logEvent (InfoSections (map Name fallbackSections)) (logEvent WarnFallback s1)))
   \<and> (homepage e (requests s) (AirbnbURL (cfg s)) = HomeNavError x
     \<longrightarrow> discoverSections e s = ([], Some (HomepageLoadFailed x), s\<lparr>requests := requests s + 1\<rparr>))
   \<and> (homepage e (requests s) (AirbnbURL (cfg s)) = Home raw
        \<and> filter (\<lambda>(n, u). \<not> (n = [] \<or> u = [])) raw = []
     \<longrightarrow> discoverSections e s = ([], None, s\<lparr>requests := requests s + 1\<rparr>))
   \<and> fst (snd (reached (Scrape fuel e s))) = None
   \<and> (discoverSections_v1 e s = (sections, Some err, s1)
     \<longrightarrow> Scrape_v1 fuel e s = Returned ([], Some (SectionDiscoveryFailed err), s1))
   \<and> (discoverSections_v1 e s = ([], None, s1)
     \<longrightarrow> Scrape_v1 fuel e s = Returned ([], Some NoSectionsFound, s1))
   \<and> (homepage e (requests s) (AirbnbURL (cfg s)) = HomeNavError x
     \<longrightarrow> discoverSections_v1 e s
           = ([], Some (HomepageNavigationFailed x), s\<lparr>requests := requests s + 1\<rparr>))
   \<and> (homepage e (requests s) (AirbnbURL (cfg s)) = Home raw
        \<and> filter (\<lambda>(n, u). \<not> (n = [] \<or> u = [])) raw = []
     \<longrightarrow> discoverSections_v1 e s = ([], None, s\<lparr>requests := requests s + 1\<rparr>))"
proof (intro conjI impI)
  assume "discoverSections e s = (sections, derr, s1) \<and> (derr \<noteq> None \<or> sections = [])"
  then show "Scrape fuel e s
           = scrapeSections fuel e fallbackSections []
               (logEvent (InfoSections (map Name fallbackSections)) (logEvent WarnFallback s1))"
    by (auto simp: Scrape_def)
next
  assume "homepage e (requests s) (AirbnbURL (cfg s)) = HomeNavError x"
  then show "discoverSections e s = ([], Some (HomepageLoadFailed x), s\<lparr>requests := requests s + 1\<rparr>)"
    by (simp add: discoverSections_def)
next
  assume "homepage e (requests s) (AirbnbURL (cfg s)) = Home raw
        \<and> filter (\<lambda>(n, u). \<not> (n = [] \<or> u = [])) raw = []"
  then show "discoverSections e s = ([], None, s\<lparr>requests := requests s + 1\<rparr>)"
    by (simp add: discoverSections_def)
next
  show "fst (snd (reached (Scrape fuel e s))) = None"
    by (rule Scrape_no_error)
next
  assume "discoverSections_v1 e s = (sections, Some err, s1)"
  then show "Scrape_v1 fuel e s = Returned ([], Some (SectionDiscoveryFailed err), s1)"
    by (simp add: Scrape_v1_def)
next
  assume "discoverSections_v1 e s = ([], None, s1)"
  then show "Scrape_v1 fuel e s = Returned ([], Some NoSectionsFound, s1)"
    by (simp add: Scrape_v1_def)
next
  assume "homepage e (requests s) (AirbnbURL (cfg s)) = HomeNavError x"
  then show "discoverSections_v1 e s
           = ([], Some (HomepageNavigationFailed x), s\<lparr>requests := requests s + 1\<rparr>)"
    by (simp add: discoverSections_v1_def)
next
  assume "homepage e (requests s) (AirbnbURL (cfg s)) = Home raw
        \<and> filter (\<lambda>(n, u). \<not> (n = [] \<or> u = [])) raw = []"
  then show "discoverSections_v1 e s = ([], None, s\<lparr>requests := requests s + 1\<rparr>)"
    by (simp add: discoverSections_v1_def)
qed

theorem C7_section_failure_witness:
  "int (length ([] :: RawListing list)) < PropertiesPerPage (cfg (Wait (NewAirbnbScraper (demoConfig 2 5))))
   \<and> scrapePage downEnv
        (logEvent (InfoPage ''Bangkok'' 1 0 5) (Wait (NewAirbnbScraper (demoConfig 2 5))))
        ''/s/bkk'' ''Bangkok''
       = ([], [],
          Some (AllAttemptsFailed 2 (Some (NavigateFailed (External ''net::ERR_INTERNET_DISCONNECTED'')))),
          \<lparr>cfg = demoConfig 2 5, seenURLs = Map.empty, requests = 2,
           log = [RateLimiterWait, InfoPage ''Bangkok'' 1 0 5,
             ErrorAttemptFailed 1 (NavigateFailed (External ''net::ERR_INTERNET_DISCONNECTED'')),
             WarnRetrying 2 2 1000000000, Sleep 1000000000,
             ErrorAttemptFailed 2 (NavigateFailed (External ''net::ERR_INTERNET_DISCONNECTED''))]\<rparr>)
   \<and> sectionLoop (Suc 0) downEnv \<lparr>Name = ''Bangkok'', SectionURL = ''/s/bkk''\<rparr> ''/s/bkk'' 1 []
        (Wait (NewAirbnbScraper (demoConfig 2 5)))
       = Returned ([],
          \<lparr>cfg = demoConfig 2 5, seenURLs = Map.empty, requests = 2,
           log = [RateLimiterWait, InfoPage ''Bangkok'' 1 0 5,
             ErrorAttemptFailed 1 (NavigateFailed (External ''net::ERR_INTERNET_DISCONNECTED'')),
             WarnRetrying 2 2 1000000000, Sleep 1000000000,
             ErrorAttemptFailed 2 (NavigateFailed (External ''net::ERR_INTERNET_DISCONNECTED''))]
             @ [ErrorPage 1 (AllAttemptsFailed 2
                (Some (NavigateFailed (External ''net::ERR_INTERNET_DISCONNECTED''))))]\<rparr>)
   \<and> scrapeSections (Suc 0) downEnv
        [\<lparr>Name = ''Bangkok'', SectionURL = ''/s/bkk''\<rparr>, \<lparr>Name = ''Tokyo'', SectionURL = ''/s/tyo''\<rparr>]
        [] (NewAirbnbScraper (demoConfig 2 5))
       = scrapeSections (Suc 0) downEnv [\<lparr>Name = ''Tokyo'', SectionURL = ''/s/tyo''\<rparr>] []
          \<lparr>cfg = demoConfig 2 5, seenURLs = Map.empty, requests = 2,
           log = [RateLimiterWait, InfoPage ''Bangkok'' 1 0 5,
             ErrorAttemptFailed 1 (NavigateFailed (External ''net::ERR_INTERNET_DISCONNECTED'')),
             WarnRetrying 2 2 1000000000, Sleep 1000000000,
             ErrorAttemptFailed 2 (NavigateFailed (External ''net::ERR_INTERNET_DISCONNECTED''))]
             @ [ErrorPage 1 (AllAttemptsFailed 2
                (Some (NavigateFailed (External ''net::ERR_INTERNET_DISCONNECTED'')))),
                InfoSectionDone ''Bangkok'' 0 0]\<rparr>"
proof -
  let ?s = "Wait (NewAirbnbScraper (demoConfig 2 5))"
  let ?sec = "\<lparr>Name = ''Bangkok'', SectionURL = ''/s/bkk''\<rparr>"
  let ?err = "AllAttemptsFailed 2 (Some (NavigateFailed (External ''net::ERR_INTERNET_DISCONNECTED'')))"
  let ?s1 = "\<lparr>cfg = demoConfig 2 5, seenURLs = Map.empty, requests = 2,
           log = [RateLimiterWait, InfoPage ''Bangkok'' 1 0 5,
             ErrorAttemptFailed 1 (NavigateFailed (External ''net::ERR_INTERNET_DISCONNECTED'')),
             WarnRetrying 2 2 1000000000, Sleep 1000000000,
             ErrorAttemptFailed 2 (NavigateFailed (External ''net::ERR_INTERNET_DISCONNECTED''))]\<rparr>"
  have q: "PropertiesPerPage (cfg ?s) = 5" "Name ?sec = ''Bangkok''"
    by (simp_all add: Wait_def logEvent_def NewAirbnbScraper_def demoConfig_def)
  have h1: "int (length ([] :: RawListing list)) < PropertiesPerPage (cfg ?s)"
    by (simp add: NewAirbnbScraper_def demoConfig_def)
  have p: "scrapePage downEnv
      (logEvent (InfoPage (Name ?sec) 1 (int (length ([] :: RawListing list))) (PropertiesPerPage (cfg ?s))) ?s)
      ''/s/bkk'' (Name ?sec) = ([], [], Some ?err, ?s1)"
    unfolding q using down_page by simp
  have a: "sectionLoop (Suc 0) downEnv ?sec ''/s/bkk'' 1 [] ?s
           = Returned ([], logEvent (ErrorPage 1 ?err) ?s1)"
    by (rule C7_section_failure [of "[]" ?s downEnv ?sec 1 "''/s/bkk''" "[]" "[]" ?err ?s1 0,
          THEN conjunct1, THEN mp, THEN conjunct1])
       (intro conjI h1 p)
  have b: "scrapeSections (Suc 0) downEnv [?sec, \<lparr>Name = ''Tokyo'', SectionURL = ''/s/tyo''\<rparr>] []
             (NewAirbnbScraper (demoConfig 2 5))
           = scrapeSections (Suc 0) downEnv [\<lparr>Name = ''Tokyo'', SectionURL = ''/s/tyo''\<rparr>] ([] @ [])
               (logEvent (InfoSectionDone (Name ?sec) (int (length ([] :: RawListing list)))
                            (int (length ([] @ [] :: RawListing list))))
                  (logEvent (ErrorPage 1 ?err) ?s1))"
    by (rule C7_section_failure [where fuel = "Suc 0" and e = downEnv and sec = ?sec
          and s = "NewAirbnbScraper (demoConfig 2 5)" and listings = "[]"
          and s' = "logEvent (ErrorPage 1 ?err) ?s1" and allListings = "[]"
          and rest = "[\<lparr>Name = ''Tokyo'', SectionURL = ''/s/tyo''\<rparr>]",
          THEN conjunct2, THEN conjunct2, THEN conjunct1, THEN mp])
       (simp add: down_section_after_wait logEvent_def)
  have q5: "PropertiesPerPage (cfg (NewAirbnbScraper (demoConfig 2 5))) = 5"
    by (simp add: NewAirbnbScraper_def demoConfig_def)
  show ?thesis
    using down_page a b by (simp add: logEvent_def q5)
qed

text \<open>
  The claim as first stated fails where it says that the error is reported to the caller:
  with the network down and two attempts allowed, the fetch of the section's page
  exhausts its retries, and \<open>scrapeSection\<close> returns no listings and a \<open>nil\<close> error.
\<close>

theorem C7_counterexample:
  "fst (snd (snd (scrapePage downEnv
        (logEvent (InfoPage ''Bangkok'' 1 0 5) (Wait (NewAirbnbScraper (demoConfig 2 5))))
        ''/s/bkk'' ''Bangkok'')))
     = Some (AllAttemptsFailed 2 (Some (NavigateFailed (External ''net::ERR_INTERNET_DISCONNECTED''))))
   \<and> scrapeSection (Suc 0) downEnv (Wait (NewAirbnbScraper (demoConfig 2 5)))
        \<lparr>Name = ''Bangkok'', SectionURL = ''/s/bkk''\<rparr>
     = Returned
        ([], None,
         \<lparr>cfg = demoConfig 2 5, seenURLs = Map.empty, requests = 2,
          log = [RateLimiterWait, InfoPage ''Bangkok'' 1 0 5,
             ErrorAttemptFailed 1 (NavigateFailed (External ''net::ERR_INTERNET_DISCONNECTED'')),
             WarnRetrying 2 2 1000000000, Sleep 1000000000,
             ErrorAttemptFailed 2 (NavigateFailed (External ''net::ERR_INTERNET_DISCONNECTED'')),
             ErrorPage 1
              (AllAttemptsFailed 2
                (Some (NavigateFailed (External ''net::ERR_INTERNET_DISCONNECTED''))))]\<rparr>)"
proof (intro conjI)
  show "fst (snd (snd (scrapePage downEnv
        (logEvent (InfoPage ''Bangkok'' 1 0 5) (Wait (NewAirbnbScraper (demoConfig 2 5))))
        ''/s/bkk'' ''Bangkok'')))
     = Some (AllAttemptsFailed 2 (Some (NavigateFailed (External ''net::ERR_INTERNET_DISCONNECTED''))))"
    by (subst down_page) simp
qed (rule down_section_after_wait)

theorem C6_discovery_fallback_witness:
  "homepage downEnv (requests (NewAirbnbScraper (demoConfig 1 5)))
       (AirbnbURL (cfg (NewAirbnbScraper (demoConfig 1 5))))
     = HomeNavError (External ''net::ERR_INTERNET_DISCONNECTED'')
   \<and> discoverSections downEnv (NewAirbnbScraper (demoConfig 1 5))
     = ([], Some (HomepageLoadFailed (External ''net::ERR_INTERNET_DISCONNECTED'')),
        NewAirbnbScraper (demoConfig 1 5)\<lparr>requests := 1\<rparr>)
   \<and> Scrape (Suc 0) downEnv (NewAirbnbScraper (demoConfig 1 5))
     = scrapeSections (Suc 0) downEnv fallbackSections []
         (logEvent (InfoSections (map Name fallbackSections))
            (logEvent WarnFallback (NewAirbnbScraper (demoConfig 1 5)\<lparr>requests := 1\<rparr>)))
   \<and> homepage emptyHomeEnv (requests (NewAirbnbScraper (demoConfig 1 5)))
       (AirbnbURL (cfg (NewAirbnbScraper (demoConfig 1 5)))) = Home []
   \<and> discoverSections emptyHomeEnv (NewAirbnbScraper (demoConfig 1 5))
     = ([], None, NewAirbnbScraper (demoConfig 1 5)\<lparr>requests := 1\<rparr>)
   \<and> Scrape (Suc 0) emptyHomeEnv (NewAirbnbScraper (demoConfig 1 5))
     = scrapeSections (Suc 0) emptyHomeEnv fallbackSections []
         (logEvent (InfoSections (map Name fallbackSections))
            (logEvent WarnFallback (NewAirbnbScraper (demoConfig 1 5)\<lparr>requests := 1\<rparr>)))
   \<and> discoverSections_v1 downEnv (NewAirbnbScraper (demoConfig 1 5))
     = ([], Some (HomepageNavigationFailed (External ''net::ERR_INTERNET_DISCONNECTED'')),
        NewAirbnbScraper (demoConfig 1 5)\<lparr>requests := 1\<rparr>)
   \<and> Scrape_v1 (Suc 0) downEnv (NewAirbnbScraper (demoConfig 1 5))
     = Returned ([], Some (SectionDiscoveryFailed
                      (HomepageNavigationFailed (External ''net::ERR_INTERNET_DISCONNECTED''))),
                 NewAirbnbScraper (demoConfig 1 5)\<lparr>requests := 1\<rparr>)
   \<and> discoverSections_v1 emptyHomeEnv (NewAirbnbScraper (demoConfig 1 5))
     = ([], None, NewAirbnbScraper (demoConfig 1 5)\<lparr>requests := 1\<rparr>)
   \<and> Scrape_v1 (Suc 0) emptyHomeEnv (NewAirbnbScraper (demoConfig 1 5))
     = Returned ([], Some NoSectionsFound, NewAirbnbScraper (demoConfig 1 5)\<lparr>requests := 1\<rparr>)"
proof -
  let ?s = "NewAirbnbScraper (demoConfig 1 5)"
  let ?x = "External ''net::ERR_INTERNET_DISCONNECTED''"
  have r: "requests ?s + 1 = 1" by (simp add: NewAirbnbScraper_def)
  have h1: "homepage downEnv (requests ?s) (AirbnbURL (cfg ?s)) = HomeNavError ?x"
    by (simp add: downEnv_def)
  have h2: "homepage emptyHomeEnv (requests ?s) (AirbnbURL (cfg ?s)) = Home []"
    by (simp add: emptyHomeEnv_def)
  have d1: "discoverSections downEnv ?s = ([], Some (HomepageLoadFailed ?x), ?s\<lparr>requests := requests ?s + 1\<rparr>)"
    by (rule C6_discovery_fallback [where e = downEnv and s = ?s and x = ?x,
          THEN conjunct2, THEN conjunct1, THEN mp]) (rule h1)
  have d2: "discoverSections emptyHomeEnv ?s = ([], None, ?s\<lparr>requests := requests ?s + 1\<rparr>)"
    by (rule C6_discovery_fallback [where e = emptyHomeEnv and s = ?s and raw = "[]",
          THEN conjunct2, THEN conjunct2, THEN conjunct1, THEN mp]) (simp add: h2)
  have s1: "Scrape (Suc 0) downEnv ?s
     = scrapeSections (Suc 0) downEnv fallbackSections []
         (logEvent (InfoSections (map Name fallbackSections))
            (logEvent WarnFallback (?s\<lparr>requests := requests ?s + 1\<rparr>)))"
    by (rule C6_discovery_fallback [where e = downEnv and s = ?s and fuel = "Suc 0"
          and sections = "[]" and derr = "Some (HomepageLoadFailed ?x)",
          THEN conjunct1, THEN mp]) (simp add: d1)
  have s2: "Scrape (Suc 0) emptyHomeEnv ?s
     = scrapeSections (Suc 0) emptyHomeEnv fallbackSections []
         (logEvent (InfoSections (map Name fallbackSections))
            (logEvent WarnFallback (?s\<lparr>requests := requests ?s + 1\<rparr>)))"
    by (rule C6_discovery_fallback [where e = emptyHomeEnv and s = ?s and fuel = "Suc 0"
          and sections = "[]" and derr = None,
          THEN conjunct1, THEN mp]) (simp add: d2)
  have e1: "discoverSections_v1 downEnv ?s
      = ([], Some (HomepageNavigationFailed ?x), ?s\<lparr>requests := requests ?s + 1\<rparr>)"
    by (rule C6_discovery_fallback [where e = downEnv and s = ?s and x = ?x,
          THEN conjunct2, THEN conjunct2, THEN conjunct2, THEN conjunct2,
          THEN conjunct2, THEN conjunct2, THEN conjunct1, THEN mp]) (rule h1)
  have e2: "discoverSections_v1 emptyHomeEnv ?s = ([], None, ?s\<lparr>requests := requests ?s + 1\<rparr>)"
    by (rule C6_discovery_fallback [where e = emptyHomeEnv and s = ?s and raw = "[]",
          THEN conjunct2, THEN conjunct2, THEN conjunct2, THEN conjunct2,
          THEN conjunct2, THEN conjunct2, THEN conjunct2, THEN mp]) (simp add: h2)
  have t1: "Scrape_v1 (Suc 0) downEnv ?s
      = Returned ([], Some (SectionDiscoveryFailed (HomepageNavigationFailed ?x)),
                  ?s\<lparr>requests := requests ?s + 1\<rparr>)"
    by (rule C6_discovery_fallback [where e = downEnv and s = ?s and sections = "[]",
          THEN conjunct2, THEN conjunct2, THEN conjunct2, THEN conjunct2,
          THEN conjunct1, THEN mp]) (rule e1)
  have t2: "Scrape_v1 (Suc 0) emptyHomeEnv ?s
      = Returned ([], Some NoSectionsFound, ?s\<lparr>requests := requests ?s + 1\<rparr>)"
    by (rule C6_discovery_fallback [where e = emptyHomeEnv and s = ?s,
          THEN conjunct2, THEN conjunct2, THEN conjunct2, THEN conjunct2,
          THEN conjunct2, THEN conjunct1, THEN mp]) (rule e2)
  show ?thesis
    using h1 h2 d1 d2 s1 s2 e1 t1 e2 t2 unfolding r by (intro conjI)
qed

text \<open>
  The claim as first stated fails in both copies.  In the second it fails where it says
  that a failure to load the entry page is fatal: with the network down, discovery fails
  with a navigation error, and the run still goes through the ten static sections and
  returns, with no listing and a \<open>nil\<close> error.  In the first it fails where it says that
  a discovery yielding no section falls back to a static list: when the entry page loads
  and yields no section, the run returns the error "no sections found".
\<close>

theorem C6_counterexample:
  "fst (snd (discoverSections downEnv (NewAirbnbScraper (demoConfig 1 5))))
     = Some (HomepageLoadFailed (External ''net::ERR_INTERNET_DISCONNECTED''))
   \<and> Scrape 1 downEnv (NewAirbnbScraper (demoConfig 1 5))
     = Returned (reached (Scrape 1 downEnv (NewAirbnbScraper (demoConfig 1 5))))
   \<and> fst (reached (Scrape 1 downEnv (NewAirbnbScraper (demoConfig 1 5)))) = []
   \<and> fst (snd (reached (Scrape 1 downEnv (NewAirbnbScraper (demoConfig 1 5))))) = None
   \<and> take 2 (log (snd (snd (reached (Scrape 1 downEnv (NewAirbnbScraper (demoConfig 1 5)))))))
     = [WarnFallback,
        InfoSections [''Bangkok'', ''Kuala Lumpur'', ''Tokyo'', ''Bali'', ''Seoul'',
          ''Singapore'', ''Paris'', ''New York'', ''London'', ''Dubai'']]
   \<and> discoverSections_v1 emptyHomeEnv (NewAirbnbScraper (demoConfig 1 5))
     = ([], None, NewAirbnbScraper (demoConfig 1 5)\<lparr>requests := 1\<rparr>)
   \<and> Scrape_v1 1 emptyHomeEnv (NewAirbnbScraper (demoConfig 1 5))
     = Returned ([], Some NoSectionsFound, NewAirbnbScraper (demoConfig 1 5)\<lparr>requests := 1\<rparr>)"
proof (intro conjI)
  show "fst (snd (discoverSections downEnv (NewAirbnbScraper (demoConfig 1 5))))
     = Some (HomepageLoadFailed (External ''net::ERR_INTERNET_DISCONNECTED''))"
    by (simp add: discoverSections_def downEnv_def)
  show "Scrape 1 downEnv (NewAirbnbScraper (demoConfig 1 5))
     = Returned (reached (Scrape 1 downEnv (NewAirbnbScraper (demoConfig 1 5))))"
    by (simp only: down_run reached.simps)
  show "fst (reached (Scrape 1 downEnv (NewAirbnbScraper (demoConfig 1 5)))) = []"
    by (simp only: down_run reached.simps fst_conv)
  show "fst (snd (reached (Scrape 1 downEnv (NewAirbnbScraper (demoConfig 1 5))))) = None"
    by (simp only: down_run reached.simps fst_conv snd_conv)
  show "take 2 (log (snd (snd (reached (Scrape 1 downEnv (NewAirbnbScraper (demoConfig 1 5)))))))
     = [WarnFallback,
        InfoSections [''Bangkok'', ''Kuala Lumpur'', ''Tokyo'', ''Bali'', ''Seoul'',
          ''Singapore'', ''Paris'', ''New York'', ''London'', ''Dubai'']]"
    by (subst down_run) simp
  show d: "discoverSections_v1 emptyHomeEnv (NewAirbnbScraper (demoConfig 1 5))
     = ([], None, NewAirbnbScraper (demoConfig 1 5)\<lparr>requests := 1\<rparr>)"
    by (simp add: discoverSections_v1_def emptyHomeEnv_def NewAirbnbScraper_def)
  show "Scrape_v1 1 emptyHomeEnv (NewAirbnbScraper (demoConfig 1 5))
     = Returned ([], Some NoSectionsFound, NewAirbnbScraper (demoConfig 1 5)\<lparr>requests := 1\<rparr>)"
    unfolding Scrape_v1_def d by simp
qed


end
